theory Spec2Isabelle
  imports Main "HOL-Library.Word"
begin

section \<open>pam\_session\_timelimit: the quota ledger and the three PAM entry points\<close>

text \<open>
  A shallow embedding of \<^verbatim>\<open>pam_session_timelimit.c\<close>. Files are byte strings, the
  process environment (file system, clock, time zone, outcome of the privileged system
  calls) is an explicit record that every operation takes and returns, and the PAM handle
  is a record holding the user item and the per-session data store. Log entries
  (\<^verbatim>\<open>pam_syslog\<close>) are not modelled; memory allocation is taken to succeed.
\<close>

subsection \<open>Return codes and C strings\<close>

datatype pam_code =
    PAM_SUCCESS | PAM_SYSTEM_ERR | PAM_BUF_ERR | PAM_PERM_DENIED
  | PAM_SESSION_ERR | PAM_BAD_ITEM | PAM_IGNORE | PAM_NO_MODULE_DATA

text \<open>Undefined behaviour of the C program is a value of the model, never a result.\<close>

datatype fault = OutOfBounds | BadPointer

definition NUL :: char where
  "NUL = CHR 0x00"

definition NL :: char where
  "NL = CHR 0x0A"

text \<open>The part of a buffer that C reads as a string: everything before the first NUL.\<close>

definition c_str :: "string \<Rightarrow> string" where
  "c_str s = takeWhile (\<lambda>c. c \<noteq> NUL) s"

definition strlen :: "string \<Rightarrow> nat" where
  "strlen s = length (c_str s)"

text \<open>\<^verbatim>\<open>strncmp(a, b, n) == 0\<close>: the first \<open>n\<close> bytes agree up to the first NUL.\<close>

definition strncmp_eq :: "string \<Rightarrow> string \<Rightarrow> nat \<Rightarrow> bool" where
  "strncmp_eq a b n = (c_str (take n a) = c_str (take n b))"

text \<open>\<^verbatim>\<open>strcmp(a, b) == 0\<close>.\<close>

definition strcmp_eq :: "string \<Rightarrow> string \<Rightarrow> bool" where
  "strcmp_eq a b = (c_str a = c_str b)"

text \<open>\<^verbatim>\<open>strncpy(dst, src, n)\<close>: the \<open>n\<close> bytes that end up in \<open>dst\<close>, NUL padded,
  with no terminator when \<open>src\<close> has \<open>n\<close> characters or more.\<close>

definition strncpy :: "string \<Rightarrow> nat \<Rightarrow> string" where
  "strncpy src n = take n (c_str src @ replicate n NUL)"

text \<open>\<^verbatim>\<open>isspace\<close> in the C locale: space, and the controls 9 to 13.\<close>

definition isspace :: "char \<Rightarrow> bool" where
  "isspace c = (c = CHR '' '' \<or> (9 \<le> (of_char c :: nat) \<and> (of_char c :: nat) \<le> 13))"

subsection \<open>Native integers in the state file\<close>

text \<open>
  \<^verbatim>\<open>time_t\<close> is a signed and \<^verbatim>\<open>usec_t\<close> an unsigned 64-bit integer; both are stored in
  the byte order of the machine, here little endian.
\<close>

type_synonym time_t = "64 word"
type_synonym usec_t = "64 word"

fun le_encode :: "nat \<Rightarrow> nat \<Rightarrow> string" where
  "le_encode 0 v = []"
| "le_encode (Suc n) v = char_of v # le_encode n (v div 256)"

fun le_decode :: "string \<Rightarrow> nat" where
  "le_decode [] = 0"
| "le_decode (c # cs) = of_char c + 256 * le_decode cs"

definition store64 :: "64 word \<Rightarrow> string" where
  "store64 v = le_encode 8 (unat v)"

definition load64 :: "string \<Rightarrow> 64 word" where
  "load64 bs = word_of_nat (le_decode bs)"

definition store32 :: "32 word \<Rightarrow> string" where
  "store32 v = le_encode 4 (unat v)"

definition load32 :: "string \<Rightarrow> 32 word" where
  "load32 bs = word_of_nat (le_decode bs)"

text \<open>Modelled from the spec: \<^verbatim>\<open>time-util.h\<close> is not among the sources; the usage
  counter is an unsigned integer that saturates at an "infinite" sentinel, the maximum
  representable value, and durations are counted in microseconds.\<close>

definition USEC_INFINITY :: usec_t where
  "USEC_INFINITY = - 1"

definition USEC_PER_SEC :: usec_t where
  "USEC_PER_SEC = 1000000"

text \<open>\<^verbatim>\<open>NAME_MAX\<close> of \<^verbatim>\<open>limits.h\<close> on Linux.\<close>

definition NAME_MAX :: nat where
  "NAME_MAX = 255"

text \<open>\<^verbatim>\<open>sizeof(buf)\<close> in both state-file scans: name field, day, counter.\<close>

definition RECSZ :: nat where
  "RECSZ = NAME_MAX + 1 + 8 + 8"

subsection \<open>The process environment\<close>

text \<open>
  \<^verbatim>\<open>struct tm\<close>; the calendar date (\<^verbatim>\<open>tm_year\<close>, \<^verbatim>\<open>tm_mon\<close>, \<^verbatim>\<open>tm_mday\<close>) is kept as
  one field, the number of the day counted from 1970-01-01.
\<close>

record tm =
  tm_sec :: int
  tm_min :: int
  tm_hour :: int
  tm_date :: int

definition timegm :: "tm \<Rightarrow> time_t" where
  "timegm t = word_of_int (tm_date t * 86400 + tm_hour t * 3600 + tm_min t * 60 + tm_sec t)"

datatype node = Regular string | NoAccess

text \<open>
  \<open>fs\<close> maps a path to the file there; \<open>now\<close> is what \<^verbatim>\<open>time(NULL)\<close> returns, the same
  value throughout one call of an entry point; \<open>localtime_r\<close> is the time zone in force
  (\<open>None\<close> is its NULL result). The flags say whether \<^verbatim>\<open>setuid(0)\<close>, \<^verbatim>\<open>open(O_CREAT)\<close>,
  \<^verbatim>\<open>flock\<close> and \<^verbatim>\<open>write\<close> succeed; a write that fails writes nothing. Reads of an open
  regular file return the bytes that are there and do not fail, so the branches of the
  two scans for \<^verbatim>\<open>read_bytes < 0\<close> have no counterpart here.
\<close>

record world =
  fs :: "string \<Rightarrow> node option"
  now :: time_t
  localtime_r :: "time_t \<Rightarrow> tm option"
  euid :: nat
  setuid_ok :: bool
  creat_ok :: bool
  flock_ok :: bool
  write_ok :: bool

definition time_today :: "world \<Rightarrow> time_t" where
  "time_today w =
     (case localtime_r w (now w) of
        None \<Rightarrow> - 1
      | Some current_tm \<Rightarrow> timegm (current_tm\<lparr>tm_sec := 0, tm_min := 0, tm_hour := 0\<rparr>))"

subsection \<open>The state file\<close>

text \<open>The twelve bytes that \<^verbatim>\<open>open_state_path\<close> writes into a new file: the tag copied
  by \<^verbatim>\<open>strncpy(buf, "Format: ", 9)\<close>, and the version stored over its terminator.\<close>

definition state_header :: string where
  "state_header = take 8 (strncpy ''Format: '' 9) @ store32 1"

text \<open>\<^verbatim>\<open>open_state_path\<close>: the open descriptor is the file's bytes and the offset after
  the header; \<open>None\<close> is the result \<open>-1\<close>.\<close>

definition open_state_path :: "world \<Rightarrow> string \<Rightarrow> (string \<times> nat) option \<times> world" where
  "open_state_path w statepath =
     (if euid w = 0 \<and> \<not> setuid_ok w then (None, w)
      else case fs w statepath of
        None \<Rightarrow>
          if \<not> creat_ok w then (None, w)
          else if \<not> flock_ok w then (None, w\<lparr>fs := (fs w)(statepath \<mapsto> Regular [])\<rparr>)
          else if \<not> write_ok w then (None, w\<lparr>fs := (fs w)(statepath \<mapsto> Regular [])\<rparr>)
          else (Some (state_header, 12),
                w\<lparr>fs := (fs w)(statepath \<mapsto> Regular state_header)\<rparr>)
      | Some NoAccess \<Rightarrow> (None, w)
      | Some (Regular data) \<Rightarrow>
          if \<not> flock_ok w then (None, w)
          else if length (take 12 data) \<noteq> 12 then (None, w)
          else if \<not> strncmp_eq (take 12 data) ''Format: '' 8
                  \<or> load32 (take 4 (drop 8 data)) \<noteq> 1 then (None, w)
          else (Some (data, 12), w))"

text \<open>\<^verbatim>\<open>read(fd, buf, n)\<close> at offset \<open>pos\<close> of a regular file: the bytes obtained.\<close>

definition sys_read :: "string \<Rightarrow> nat \<Rightarrow> nat \<Rightarrow> string" where
  "sys_read data pos n = take n (drop pos data)"

text \<open>\<^verbatim>\<open>write(fd, bytes, n)\<close> at offset \<open>pos\<close>: the new contents of the file.\<close>

definition sys_write :: "string \<Rightarrow> nat \<Rightarrow> string \<Rightarrow> string" where
  "sys_write data pos bytes = take pos data @ bytes @ drop (pos + length bytes) data"

text \<open>
  The scan of \<^verbatim>\<open>get_used_time_for_user\<close>. \<open>buf\<close> and \<open>buf_bytes\<close> are the C variables,
  \<open>pos\<close> the file offset; \<^verbatim>\<open>read\<close> stores what it gets at the start of \<open>buf\<close>. The result
  is \<^verbatim>\<open>*used_time\<close>, which stays 0 unless a record of today is found.
\<close>

function get_scan :: "string \<Rightarrow> time_t \<Rightarrow> string \<Rightarrow> nat \<Rightarrow> string \<Rightarrow> nat \<Rightarrow> usec_t" where
  "get_scan username today data pos buf buf_bytes =
     (if buf_bytes = RECSZ \<and> strncmp_eq username buf (NAME_MAX + 1) then
        (let last_seen = load64 (take 8 (drop (NAME_MAX + 1) buf))
         in if last_seen <s today then 0
            else load64 (take 8 (drop (NAME_MAX + 1 + 8) buf)))
      else
        let bb = (if buf_bytes = RECSZ then 0 else buf_bytes);
            got = sys_read data pos (RECSZ - bb)
        in if got = [] then 0
           else get_scan username today data (pos + length got)
                  (got @ drop (length got) buf) (bb + length got))"
  by pat_completeness auto
termination
  by (relation "measure (\<lambda>(username, today, data, pos, buf, buf_bytes). length data - pos)")
     (auto simp: sys_read_def split: if_splits)

declare get_scan.simps [simp del]

text \<open>\<^verbatim>\<open>buf\<close> is uninitialised in C; it is looked at only once a read has filled it.\<close>

definition get_used_time_for_user ::
  "world \<Rightarrow> string \<Rightarrow> string \<Rightarrow> (pam_code \<times> usec_t) \<times> world" where
  "get_used_time_for_user w statepath username =
     (case open_state_path w statepath of
        (None, w1) \<Rightarrow> ((PAM_SYSTEM_ERR, 0), w1)
      | (Some (data, pos), w1) \<Rightarrow>
          ((PAM_SUCCESS,
            get_scan username (time_today w1) data pos (replicate RECSZ NUL) 0), w1))"

text \<open>The scan of \<^verbatim>\<open>set_used_time_for_user\<close>: the file offset when the loop is left,
  after the \<^verbatim>\<open>lseek\<close> back over the record when one matched.\<close>

function set_scan :: "string \<Rightarrow> string \<Rightarrow> nat \<Rightarrow> string \<Rightarrow> nat \<Rightarrow> nat" where
  "set_scan username data pos buf buf_bytes =
     (if buf_bytes = RECSZ \<and> strncmp_eq username buf (NAME_MAX + 1) then pos - RECSZ
      else
        let bb = (if buf_bytes = RECSZ then 0 else buf_bytes);
            got = sys_read data pos (RECSZ - bb)
        in if got = [] then pos
           else set_scan username data (pos + length got)
                  (got @ drop (length got) buf) (bb + length got))"
  by pat_completeness auto
termination
  by (relation "measure (\<lambda>(username, data, pos, buf, buf_bytes). length data - pos)")
     (auto simp: sys_read_def split: if_splits)

declare set_scan.simps [simp del]

text \<open>The record image built after the scan: \<^verbatim>\<open>memset\<close>, \<^verbatim>\<open>strncpy\<close>, day, counter.\<close>

definition make_record :: "string \<Rightarrow> time_t \<Rightarrow> usec_t \<Rightarrow> string" where
  "make_record username today used_time =
     strncpy username (NAME_MAX + 1) @ store64 today @ store64 used_time"

definition set_used_time_for_user ::
  "world \<Rightarrow> string \<Rightarrow> string \<Rightarrow> usec_t \<Rightarrow> pam_code \<times> world" where
  "set_used_time_for_user w statepath username used_time =
     (case open_state_path w statepath of
        (None, w1) \<Rightarrow> (PAM_SYSTEM_ERR, w1)
      | (Some (data, pos), w1) \<Rightarrow>
          let at = set_scan username data pos (replicate RECSZ NUL) 0;
              buf = make_record username (time_today w1) used_time
          in if \<not> write_ok w1 then (PAM_SYSTEM_ERR, w1)
             else (PAM_SUCCESS,
                   w1\<lparr>fs := (fs w1)(statepath \<mapsto> Regular (sys_write data at buf))\<rparr>))"

text \<open>The day and the counter of a record, as the scan copies them out of \<open>buf\<close>.\<close>

definition slot_day :: "string \<Rightarrow> time_t" where
  "slot_day slot = load64 (take 8 (drop (NAME_MAX + 1) slot))"

definition slot_used :: "string \<Rightarrow> usec_t" where
  "slot_used slot = load64 (take 8 (drop (NAME_MAX + 1 + 8) slot))"

subsection \<open>The limits file\<close>

text \<open>\<^verbatim>\<open>line[i]\<close> with the bounds of the buffer written out: \<open>None\<close> is an access outside
  the array.\<close>

definition rd :: "string \<Rightarrow> int \<Rightarrow> char option" where
  "rd line i = (if 0 \<le> i \<and> i < int (length line) then Some (line ! nat i) else None)"

text \<open>\<^verbatim>\<open>strchr(line, c)\<close>: the index of the first \<open>c\<close> before the terminator.\<close>

definition strchr :: "string \<Rightarrow> char \<Rightarrow> nat option" where
  "strchr line c =
     (if c \<in> set (c_str line) then Some (length (takeWhile (\<lambda>x. x \<noteq> c) (c_str line)))
      else None)"

text \<open>The loop \<^verbatim>\<open>while (isspace(line[length-1])) line[--length] = '\0';\<close>.\<close>

function eat_trailing :: "string \<Rightarrow> nat \<Rightarrow> fault + (string \<times> nat)" where
  "eat_trailing line len =
     (case rd line (int len - 1) of
        None \<Rightarrow> Inl OutOfBounds
      | Some c \<Rightarrow>
          if isspace c then eat_trailing (line[len - 1 := NUL]) (len - 1)
          else Inr (line, len))"
  by pat_completeness auto
termination
  by (relation "measure (\<lambda>(line, len). len)") (auto simp: rd_def split: if_splits)

declare eat_trailing.simps [simp del]

text \<open>The loop \<^verbatim>\<open>for (i = 0; i <= length; i++) if (isspace(line[i])) break;\<close>.\<close>

function user_end :: "string \<Rightarrow> nat \<Rightarrow> nat \<Rightarrow> fault + nat" where
  "user_end line len i =
     (if i \<le> len then
        (case rd line (int i) of
           None \<Rightarrow> Inl OutOfBounds
         | Some c \<Rightarrow> if isspace c then Inr i else user_end line len (Suc i))
      else Inr i)"
  by pat_completeness auto
termination
  by (relation "measure (\<lambda>(line, len, i). Suc len - i)") auto

declare user_end.simps [simp del]

text \<open>
  \<^verbatim>\<open>parse_config_line\<close>. The argument is the line as \<^verbatim>\<open>fgets\<close> read it; the buffer is
  the line and its terminator, and it is edited in place as in C, so a byte behind a
  NUL that the function wrote is still there. The result is the return code with
  \<^verbatim>\<open>*user\<close> and \<^verbatim>\<open>*limit\<close>.
\<close>

definition parse_config_line ::
  "string \<Rightarrow> fault + (pam_code \<times> string option \<times> string option)" where
  "parse_config_line line0 =
     (let line = line0 @ [NUL];
          len = strlen line
      in case rd line (int len - 1) of
           None \<Rightarrow> Inl OutOfBounds
         | Some c \<Rightarrow>
             if c \<noteq> NL then Inr (PAM_BUF_ERR, None, None)
             else
               let len = len - 1;
                   line = line[len := NUL];
                   comment = strchr line (CHR ''#'');
                   line = (case comment of None \<Rightarrow> line | Some k \<Rightarrow> line[k := NUL]);
                   len = (case comment of None \<Rightarrow> len | Some k \<Rightarrow> k)
               in case eat_trailing line len of
                    Inl f \<Rightarrow> Inl f
                  | Inr (line, len) \<Rightarrow>
                      if len = 0 then Inr (PAM_SUCCESS, None, None)
                      else case user_end line len 0 of
                        Inl f \<Rightarrow> Inl f
                      | Inr i \<Rightarrow>
                          if i = 0 then Inr (PAM_SYSTEM_ERR, None, None)
                          else
                            let user = c_str (strncpy line i);
                                rest = dropWhile isspace (drop i line)
                            in case rest of
                                 [] \<Rightarrow> Inl OutOfBounds
                               | c # _ \<Rightarrow>
                                   if c = NUL then Inr (PAM_SYSTEM_ERR, None, None)
                                   else Inr (PAM_SUCCESS, Some user, Some (c_str rest)))"

text \<open>\<^verbatim>\<open>fgets(line, n, f)\<close> on the unread part of the file: at most \<open>n - 1\<close> bytes, up to
  and including the first newline; \<open>None\<close> at the end of the file.\<close>

definition fgets :: "nat \<Rightarrow> string \<Rightarrow> (string \<times> string) option" where
  "fgets n s =
     (if s = [] then None
      else let k = min (n - 1) (Suc (length (takeWhile (\<lambda>c. c \<noteq> NL) s)))
           in Some (take k s, drop k s))"

text \<open>The reading loop of \<^verbatim>\<open>parse_config_file\<close>; \<open>results\<close> is the table built so far,
  one pair for each two consecutive entries of the C array.\<close>

function read_config ::
  "string \<Rightarrow> (string \<times> string) list \<Rightarrow> fault + (pam_code \<times> (string \<times> string) list)" where
  "read_config s results =
     (case fgets 1024 s of
        None \<Rightarrow> Inr (PAM_SUCCESS, results)
      | Some (line, rest) \<Rightarrow>
          (case parse_config_line line of
             Inl f \<Rightarrow> Inl f
           | Inr (ret, user, limit) \<Rightarrow>
               if ret \<noteq> PAM_SUCCESS then Inr (PAM_PERM_DENIED, [])
               else case (user, limit) of
                 (Some u, Some l) \<Rightarrow> read_config rest (results @ [(u, l)])
               | _ \<Rightarrow> read_config rest results))"
  by pat_completeness auto
termination
  by (relation "measure (\<lambda>(s, results). length s)")
     (auto simp: fgets_def Let_def split: if_splits)

declare read_config.simps [simp del]

definition parse_config_file ::
  "world \<Rightarrow> string \<Rightarrow> fault + (pam_code \<times> (string \<times> string) list)" where
  "parse_config_file w path =
     (case fs w path of
        None \<Rightarrow> Inr (PAM_IGNORE, [])
      | Some NoAccess \<Rightarrow> Inr (PAM_PERM_DENIED, [])
      | Some (Regular content) \<Rightarrow>
          (case read_config content [] of
             Inl f \<Rightarrow> Inl f
           | Inr (ret, results) \<Rightarrow>
               if ret \<noteq> PAM_SUCCESS then Inr (ret, [])
               else if results = [] then Inr (PAM_IGNORE, [])
               else Inr (PAM_SUCCESS, results)))"

subsection \<open>The PAM handle and the time-span codec\<close>

datatype pam_datum = DNull | DText string | DTime time_t

text \<open>
  \<open>pam_user\<close> is what \<^verbatim>\<open>pam_get_item(PAM_USER)\<close> answers (code and pointer, \<open>None\<close>
  for NULL), \<open>pam_data\<close> the per-session data store, \<open>set_data_ret\<close> the answer of the
  store to a \<^verbatim>\<open>pam_set_data\<close>: it keeps the value only when it answers
  \<open>PAM_SUCCESS\<close>.
\<close>

record pam_handle =
  pam_user :: "pam_code \<times> string option"
  pam_data :: "string \<Rightarrow> pam_datum option"
  set_data_ret :: pam_code

definition pam_get_item :: "pam_handle \<Rightarrow> pam_code \<times> string option" where
  "pam_get_item h = pam_user h"

definition pam_get_data :: "pam_handle \<Rightarrow> string \<Rightarrow> pam_code \<times> pam_datum" where
  "pam_get_data h name =
     (case pam_data h name of
        None \<Rightarrow> (PAM_NO_MODULE_DATA, DNull)
      | Some d \<Rightarrow> (PAM_SUCCESS, d))"

definition pam_set_data :: "pam_handle \<Rightarrow> string \<Rightarrow> pam_datum \<Rightarrow> pam_code \<times> pam_handle" where
  "pam_set_data h name d =
     (if set_data_ret h = PAM_SUCCESS
      then (PAM_SUCCESS, h\<lparr>pam_data := (pam_data h)(name \<mapsto> d)\<rparr>)
      else (set_data_ret h, h))"

text \<open>Modelled from the spec: \<^verbatim>\<open>time-util.c\<close> is not among the sources. The Time-Span
  Codec is external, \<open>parse(text) -> microseconds | error\<close> and
  \<open>format(microseconds) -> text\<close>; both are parameters here, and \<open>None\<close> is the failure
  that the callers test for.\<close>

record codec =
  parse_time :: "string \<Rightarrow> usec_t option"
  format_timespan :: "usec_t \<Rightarrow> string option"

text \<open>The default paths, with the directories that \<^verbatim>\<open>configure\<close> substitutes as the
  manual page gives them.\<close>

definition DEFAULT_CONFIG_PATH :: string where
  "DEFAULT_CONFIG_PATH = ''/etc/security/time_limits.conf''"

definition DEFAULT_STATE_PATH :: string where
  "DEFAULT_STATE_PATH = ''/var/lib/session_times''"

subsection \<open>The entry points\<close>

definition pam_sm_open_session :: "pam_handle \<Rightarrow> world \<Rightarrow> pam_code \<times> pam_handle" where
  "pam_sm_open_session h w =
     (case pam_set_data h ''timelimit.session_start'' (DTime (now w)) of
        (retval, h1) \<Rightarrow>
          if retval \<noteq> PAM_SUCCESS then (PAM_SYSTEM_ERR, h1) else (PAM_SUCCESS, h1))"

text \<open>The argument loop of \<^verbatim>\<open>pam_sm_close_session\<close>: the state path chosen, or \<open>None\<close>
  at the first argument that is not \<^verbatim>\<open>statepath=\<close>.\<close>

fun close_args :: "string list \<Rightarrow> string option \<Rightarrow> string option option" where
  "close_args [] statepath = Some statepath"
| "close_args (a # argv) statepath =
     (if strncmp_eq a ''statepath='' (strlen ''statepath='')
      then close_args argv (Some (drop (strlen ''statepath='') a))
      else None)"

text \<open>Lines 495 to 498: the sum of the usage on record and of the elapsed time.\<close>

definition add_used_time :: "usec_t \<Rightarrow> usec_t \<Rightarrow> usec_t" where
  "add_used_time used_time elapsed_time =
     (if USEC_INFINITY - used_time < elapsed_time then USEC_INFINITY
      else elapsed_time + used_time)"

definition pam_sm_close_session ::
  "pam_handle \<Rightarrow> string list \<Rightarrow> world \<Rightarrow> fault + (pam_code \<times> world)" where
  "pam_sm_close_session h argv w =
     (let end_time = now w in
      case pam_get_data h ''systemd.runtime_max_sec'' of
        (retval, runtime_max_sec) \<Rightarrow>
      if retval \<noteq> PAM_SUCCESS \<or> runtime_max_sec = DNull then Inr (PAM_SUCCESS, w)
      else case close_args argv None of
        None \<Rightarrow> Inr (PAM_SYSTEM_ERR, w)
      | Some sp \<Rightarrow>
      let statepath = (case sp of None \<Rightarrow> DEFAULT_STATE_PATH | Some p \<Rightarrow> p) in
      case pam_get_data h ''timelimit.session_start'' of
        (retval, start) \<Rightarrow>
      if retval \<noteq> PAM_SUCCESS then Inr (PAM_SESSION_ERR, w)
      else case start of
        DNull \<Rightarrow> Inl BadPointer
      | DText t \<Rightarrow> Inl BadPointer
      | DTime start_time \<Rightarrow>
      if end_time <s start_time then Inr (PAM_SESSION_ERR, w)
      else
      let elapsed_time = (end_time - start_time) * USEC_PER_SEC in
      case pam_get_item h of
        (retval, username) \<Rightarrow>
      if retval \<noteq> PAM_SUCCESS then Inr (retval, w)
      else case username of
        None \<Rightarrow> Inr (PAM_SESSION_ERR, w)
      | Some username \<Rightarrow>
      case get_used_time_for_user w statepath username of
        ((retval, used_time), w1) \<Rightarrow>
      if retval \<noteq> PAM_SUCCESS then Inr (PAM_SESSION_ERR, w1)
      else
      case set_used_time_for_user w1 statepath username
             (add_used_time used_time elapsed_time) of
        (retval, w2) \<Rightarrow>
      if retval \<noteq> PAM_SUCCESS then Inr (PAM_SESSION_ERR, w2)
      else Inr (PAM_SUCCESS, w2))"

text \<open>The argument loop of \<^verbatim>\<open>pam_sm_acct_mgmt\<close>: the two paths chosen, or \<open>None\<close> at
  the first argument that is neither \<^verbatim>\<open>path=\<close> nor \<^verbatim>\<open>statepath=\<close>.\<close>

fun acct_args ::
  "string list \<Rightarrow> string option \<Rightarrow> string option \<Rightarrow> (string option \<times> string option) option" where
  "acct_args [] path statepath = Some (path, statepath)"
| "acct_args (a # argv) path statepath =
     (if strncmp_eq a ''path='' (strlen ''path='')
      then acct_args argv (Some (drop (strlen ''path='') a)) statepath
      else if strncmp_eq a ''statepath='' (strlen ''statepath='')
      then acct_args argv path (Some (drop (strlen ''statepath='') a))
      else None)"

text \<open>The loop over \<^verbatim>\<open>user_table\<close>: \<open>runtime_max_sec\<close> is overwritten at every entry
  whose name is the user's, and the loop runs to the end of the table.\<close>

fun scan_table :: "(string \<times> string) list \<Rightarrow> string \<Rightarrow> string option \<Rightarrow> string option" where
  "scan_table [] username runtime_max_sec = runtime_max_sec"
| "scan_table ((name, limit) # user_table) username runtime_max_sec =
     scan_table user_table username
       (if strcmp_eq name username then Some limit else runtime_max_sec)"

text \<open>Lines 568 to 603 of \<^verbatim>\<open>pam_sm_acct_mgmt\<close>: what is done with the limit text that
  the loop selected.\<close>

definition enforce_limit ::
  "codec \<Rightarrow> pam_handle \<Rightarrow> world \<Rightarrow> string \<Rightarrow> string \<Rightarrow> string
     \<Rightarrow> fault + (pam_code \<times> pam_handle \<times> world)" where
  "enforce_limit c h w statepath username runtime_max_sec =
     (case parse_time c runtime_max_sec of
        None \<Rightarrow> Inr (PAM_PERM_DENIED, h, w)
      | Some timeval \<Rightarrow>
      case get_used_time_for_user w statepath username of
        ((retval, used_time), w1) \<Rightarrow>
      if retval \<noteq> PAM_SUCCESS then Inr (PAM_PERM_DENIED, h, w1)
      else if timeval \<le> used_time then Inr (PAM_PERM_DENIED, h, w1)
      else
      let timeval = timeval - used_time in
      case format_timespan c timeval of
        None \<Rightarrow> Inr (PAM_PERM_DENIED, h, w1)
      | Some text \<Rightarrow>
      case pam_set_data h ''systemd.runtime_max_sec'' (DText text) of
        (retval, h1) \<Rightarrow>
      if retval \<noteq> PAM_SUCCESS then Inr (PAM_PERM_DENIED, h1, w1)
      else Inr (retval, h1, w1))"

definition pam_sm_acct_mgmt ::
  "codec \<Rightarrow> pam_handle \<Rightarrow> string list \<Rightarrow> world \<Rightarrow> fault + (pam_code \<times> pam_handle \<times> world)" where
  "pam_sm_acct_mgmt c h argv w =
     (case acct_args argv None None of
        None \<Rightarrow> Inr (PAM_PERM_DENIED, h, w)
      | Some (po, sp) \<Rightarrow>
      let path = (case po of None \<Rightarrow> DEFAULT_CONFIG_PATH | Some p \<Rightarrow> p);
          statepath = (case sp of None \<Rightarrow> DEFAULT_STATE_PATH | Some p \<Rightarrow> p)
      in
      case pam_get_item h of
        (retval, username) \<Rightarrow>
      if retval \<noteq> PAM_SUCCESS then Inr (retval, h, w)
      else case username of
        None \<Rightarrow> Inr (PAM_PERM_DENIED, h, w)
      | Some username \<Rightarrow>
      case parse_config_file w path of
        Inl f \<Rightarrow> Inl f
      | Inr (retval, user_table) \<Rightarrow>
      if retval \<noteq> PAM_SUCCESS then Inr (retval, h, w)
      else case scan_table user_table username None of
        None \<Rightarrow> Inr (PAM_IGNORE, h, w)
      | Some runtime_max_sec \<Rightarrow>
          enforce_limit c h w statepath username runtime_max_sec)"

text \<open>The return code of an entry point, when the call returns.\<close>

definition outcome :: "fault + (pam_code \<times> 'a) \<Rightarrow> pam_code option" where
  "outcome r = (case r of Inl f \<Rightarrow> None | Inr (retval, x) \<Rightarrow> Some retval)"

subsection \<open>The limits file when the byte in front of the line buffer is read\<close>

text \<open>
  On a line that is empty once the newline and the comment are gone,
  \<^verbatim>\<open>while (isspace(line[length-1]))\<close> runs with \<open>length = 0\<close> and reads the byte in front
  of the array \<^verbatim>\<open>line\<close> of \<^verbatim>\<open>parse_config_file\<close>. The definitions above end there with
  \<open>OutOfBounds\<close>. The definitions of this subsection follow the same source lines on a
  machine where that read returns a byte: the byte is the parameter \<open>stray\<close>, and
  nothing is said about its value. Every other access stays checked against the
  buffer. When \<open>stray\<close> is white space the loop goes on to \<^verbatim>\<open>line[--length] = '\0'\<close>,
  a write in front of the buffer, and that is still \<open>OutOfBounds\<close>.
\<close>

text \<open>The loop \<^verbatim>\<open>while (isspace(line[length-1])) line[--length] = '\0';\<close>.\<close>

function eat_trailing_mem :: "char \<Rightarrow> string \<Rightarrow> nat \<Rightarrow> fault + (string \<times> nat)" where
  "eat_trailing_mem stray line len =
     (if len = 0 then (if isspace stray then Inl OutOfBounds else Inr (line, len))
      else case rd line (int len - 1) of
        None \<Rightarrow> Inl OutOfBounds
      | Some c \<Rightarrow>
          if isspace c then eat_trailing_mem stray (line[len - 1 := NUL]) (len - 1)
          else Inr (line, len))"
  by pat_completeness auto
termination
  by (relation "measure (\<lambda>(stray, line, len). len)") auto

declare eat_trailing_mem.simps [simp del]

text \<open>
  \<^verbatim>\<open>parse_config_line\<close>. With \<open>length = 0\<close> the test \<^verbatim>\<open>line[length-1] != '\n'\<close> reads the
  same byte; when it is a newline, \<^verbatim>\<open>line[--length] = '\0'\<close> writes in front of the
  buffer.
\<close>

definition parse_config_line_mem ::
  "char \<Rightarrow> string \<Rightarrow> fault + (pam_code \<times> string option \<times> string option)" where
  "parse_config_line_mem stray line0 =
     (let line = line0 @ [NUL];
          len = strlen line
      in case (if len = 0 then Some stray else rd line (int len - 1)) of
           None \<Rightarrow> Inl OutOfBounds
         | Some c \<Rightarrow>
             if c \<noteq> NL then Inr (PAM_BUF_ERR, None, None)
             else if len = 0 then Inl OutOfBounds
             else
               let len = len - 1;
                   line = line[len := NUL];
                   comment = strchr line (CHR ''#'');
                   line = (case comment of None \<Rightarrow> line | Some k \<Rightarrow> line[k := NUL]);
                   len = (case comment of None \<Rightarrow> len | Some k \<Rightarrow> k)
               in case eat_trailing_mem stray line len of
                    Inl f \<Rightarrow> Inl f
                  | Inr (line, len) \<Rightarrow>
                      if len = 0 then Inr (PAM_SUCCESS, None, None)
                      else case user_end line len 0 of
                        Inl f \<Rightarrow> Inl f
                      | Inr i \<Rightarrow>
                          if i = 0 then Inr (PAM_SYSTEM_ERR, None, None)
                          else
                            let user = c_str (strncpy line i);
                                rest = dropWhile isspace (drop i line)
                            in case rest of
                                 [] \<Rightarrow> Inl OutOfBounds
                               | c # _ \<Rightarrow>
                                   if c = NUL then Inr (PAM_SYSTEM_ERR, None, None)
                                   else Inr (PAM_SUCCESS, Some user, Some (c_str rest)))"

text \<open>The reading loop of \<^verbatim>\<open>parse_config_file\<close>; \<open>stack n\<close> is the byte in front of the
  buffer during the call for the \<open>n\<close>-th line read.\<close>

function read_config_mem ::
  "(nat \<Rightarrow> char) \<Rightarrow> nat \<Rightarrow> string \<Rightarrow> (string \<times> string) list
     \<Rightarrow> fault + (pam_code \<times> (string \<times> string) list)" where
  "read_config_mem stack n s results =
     (case fgets 1024 s of
        None \<Rightarrow> Inr (PAM_SUCCESS, results)
      | Some (line, rest) \<Rightarrow>
          (case parse_config_line_mem (stack n) line of
             Inl f \<Rightarrow> Inl f
           | Inr (ret, user, limit) \<Rightarrow>
               if ret \<noteq> PAM_SUCCESS then Inr (PAM_PERM_DENIED, [])
               else case (user, limit) of
                 (Some u, Some l) \<Rightarrow> read_config_mem stack (Suc n) rest (results @ [(u, l)])
               | _ \<Rightarrow> read_config_mem stack (Suc n) rest results))"
  by pat_completeness auto
termination
  by (relation "measure (\<lambda>(stack, n, s, results). length s)")
     (auto simp: fgets_def Let_def split: if_splits)

declare read_config_mem.simps [simp del]

definition parse_config_file_mem ::
  "(nat \<Rightarrow> char) \<Rightarrow> world \<Rightarrow> string \<Rightarrow> fault + (pam_code \<times> (string \<times> string) list)" where
  "parse_config_file_mem stack w path =
     (case fs w path of
        None \<Rightarrow> Inr (PAM_IGNORE, [])
      | Some NoAccess \<Rightarrow> Inr (PAM_PERM_DENIED, [])
      | Some (Regular content) \<Rightarrow>
          (case read_config_mem stack 0 content [] of
             Inl f \<Rightarrow> Inl f
           | Inr (ret, results) \<Rightarrow>
               if ret \<noteq> PAM_SUCCESS then Inr (ret, [])
               else if results = [] then Inr (PAM_IGNORE, [])
               else Inr (PAM_SUCCESS, results)))"

text \<open>\<^verbatim>\<open>pam_sm_acct_mgmt\<close> over this reading of the limits file.\<close>

definition pam_sm_acct_mgmt_mem ::
  "(nat \<Rightarrow> char) \<Rightarrow> codec \<Rightarrow> pam_handle \<Rightarrow> string list \<Rightarrow> world
     \<Rightarrow> fault + (pam_code \<times> pam_handle \<times> world)" where
  "pam_sm_acct_mgmt_mem stack c h argv w =
     (case acct_args argv None None of
        None \<Rightarrow> Inr (PAM_PERM_DENIED, h, w)
      | Some (po, sp) \<Rightarrow>
      let path = (case po of None \<Rightarrow> DEFAULT_CONFIG_PATH | Some p \<Rightarrow> p);
          statepath = (case sp of None \<Rightarrow> DEFAULT_STATE_PATH | Some p \<Rightarrow> p)
      in
      case pam_get_item h of
        (retval, username) \<Rightarrow>
      if retval \<noteq> PAM_SUCCESS then Inr (retval, h, w)
      else case username of
        None \<Rightarrow> Inr (PAM_PERM_DENIED, h, w)
      | Some username \<Rightarrow>
      case parse_config_file_mem stack w path of
        Inl f \<Rightarrow> Inl f
      | Inr (retval, user_table) \<Rightarrow>
      if retval \<noteq> PAM_SUCCESS then Inr (retval, h, w)
      else case scan_table user_table username None of
        None \<Rightarrow> Inr (PAM_IGNORE, h, w)
      | Some runtime_max_sec \<Rightarrow>
          enforce_limit c h w statepath username runtime_max_sec)"

subsection \<open>Sample environments\<close>

text \<open>A time zone at a fixed offset, in seconds, from universal time.\<close>

definition zone_at :: "int \<Rightarrow> time_t \<Rightarrow> tm option" where
  "zone_at off t =
     (let s = sint t + off
      in Some \<lparr>tm_sec = s mod 60, tm_min = s div 60 mod 60,
               tm_hour = s div 3600 mod 24, tm_date = s div 86400\<rparr>)"

text \<open>An unprivileged process one hour east of Greenwich, late on day 19675, with the
  given files and no failing system call.\<close>

definition sample_world :: "(string \<Rightarrow> node option) \<Rightarrow> world" where
  "sample_world files =
     \<lparr>fs = files, now = 1700000000, localtime_r = zone_at 3600, euid = 1000,
      setuid_ok = True, creat_ok = True, flock_ok = True, write_ok = True\<rparr>"

text \<open>A handle for the user \<open>ted\<close> with the given session data.\<close>

definition sample_handle :: "(string \<Rightarrow> pam_datum option) \<Rightarrow> pam_code \<Rightarrow> pam_handle" where
  "sample_handle d r = \<lparr>pam_user = (PAM_SUCCESS, Some ''ted''), pam_data = d, set_data_ret = r\<rparr>"

text \<open>A codec that knows the three time spans of the scenarios.\<close>

definition sample_codec :: codec where
  "sample_codec =
     \<lparr>parse_time = [''5h'' \<mapsto> 18000000000, ''12h'' \<mapsto> 43200000000],
      format_timespan = [18000000000 \<mapsto> ''5h'', 25200000000 \<mapsto> ''7h'',
                         43200000000 \<mapsto> ''12h'']\<rparr>"

subsection \<open>Notions used to state the properties\<close>

text \<open>The state of a scan at the top of its loop when no record has matched so far:
  the buffer is empty, or it holds a whole record of another user.\<close>

definition scan_ready :: "string \<Rightarrow> string \<Rightarrow> nat \<Rightarrow> bool" where
  "scan_ready u buf bb =
     (length buf = RECSZ \<and> (bb = 0 \<or> (bb = RECSZ \<and> \<not> strncmp_eq u buf (NAME_MAX + 1))))"

text \<open>The environment lets \<^verbatim>\<open>open_state_path\<close> open and lock an existing state file.\<close>

definition can_open :: "world \<Rightarrow> bool" where
  "can_open w = ((0 < euid w \<or> setuid_ok w) \<and> flock_ok w)"

text \<open>A line of the limits file that \<^verbatim>\<open>fgets\<close> returns whole: it ends with its only
  newline and fits the buffer.\<close>

definition complete_line :: "string \<Rightarrow> bool" where
  "complete_line l = (l \<noteq> [] \<and> last l = NL \<and> NL \<notin> set (butlast l) \<and> length l < 1024)"

text \<open>The table entry that a line contributes, if any.\<close>

definition line_entries :: "string \<Rightarrow> (string \<times> string) list" where
  "line_entries l =
     (case parse_config_line l of
        Inr (ret, Some u, Some v) \<Rightarrow> [(u, v)]
      | _ \<Rightarrow> [])"

text \<open>The state file of the test \<^verbatim>\<open>state_file_no_crash_on_truncation\<close>: a record of
  five hours for \<open>ted\<close>, cut off at 50 bytes.\<close>

definition truncated_world :: world where
  "truncated_world =
     sample_world [''data/state'' \<mapsto>
       Regular (take 50 (state_header @ make_record ''ted'' 1699920000 18000000000))]"

text \<open>Scenario C: the limits file gives \<open>ted\<close> twelve hours, and the state file holds
  five hours used today.\<close>

definition scenario_world :: world where
  "scenario_world =
     sample_world [''data/limits'' \<mapsto> Regular ''ted 12h\<newline>'',
                   ''data/state'' \<mapsto>
                     Regular (state_header @ make_record ''ted'' 1699920000 18000000000)]"

text \<open>A limits file with three entries for \<open>ted\<close> among those of other users.\<close>

definition duplicates_world :: world where
  "duplicates_world =
     sample_world [''data/limits'' \<mapsto>
       Regular (concat [''ted 5h\<newline>'', ''ted 9h\<newline>'', ''bob 1h\<newline>'',
                        ''ted 12h\<newline>'', ''ann 2h\<newline>''])]"

text \<open>A line that is blank or only a comment: no byte before the first \<open>#\<close>, or before
  the newline when there is no \<open>#\<close>, is anything but white space.\<close>

definition skipped_line :: "string \<Rightarrow> bool" where
  "skipped_line l =
     (NUL \<notin> set l \<and> list_all isspace (takeWhile (\<lambda>c. c \<noteq> CHR ''#'') (butlast l)))"

text \<open>The limits file of the test \<^verbatim>\<open>config_only_comments\<close>: comments and a blank line,
  as in the \<^verbatim>\<open>time_limits.conf\<close> that is shipped.\<close>

definition comments_world :: world where
  "comments_world =
     sample_world [''data/only_comments'' \<mapsto>
       Regular (concat [''# per-user time limits for login sessions\<newline>'',
                        ''\<newline>'',
                        ''#vorlon 5h30s\<newline>'',
                        ''  # lynn 30\<newline>''])]"

section \<open>Facts about the model\<close>

subsection \<open>Bytes and strings\<close>

lemma le_decode_encode: "le_decode (le_encode n v) = v mod 256 ^ n"
proof (induction n arbitrary: v)
  case 0
  then show ?case by simp
next
  case (Suc n)
  have "v mod 256 + 256 * (v div 256 mod 256 ^ n) = v mod (256 * 256 ^ n)"
    by (simp add: mod_mult2_eq)
  with Suc show ?case by simp
qed

lemma length_le_encode [simp]: "length (le_encode n v) = n"
  by (induction n arbitrary: v) auto

lemma length_store64 [simp]: "length (store64 v) = 8"
  by (simp add: store64_def)

lemma load64_store64 [simp]: "load64 (store64 v) = v"
proof -
  have "unat v < 256 ^ 8"
    using unsigned_less [of v, where ?'a = nat] by simp
  then show ?thesis
    by (simp add: load64_def store64_def le_decode_encode)
qed

lemma c_str_take: "c_str (take n s) = take n (c_str s)"
  unfolding c_str_def by (induction s arbitrary: n) (auto simp: take_Cons' )

lemma c_str_idem_pad: "c_str (c_str s @ replicate n NUL) = c_str s"
  unfolding c_str_def by (induction s) (auto simp: takeWhile_replicate)

lemma length_strncpy [simp]: "length (strncpy s n) = n"
  by (simp add: strncpy_def)

lemma strncmp_strncpy: "strncmp_eq u (strncpy u n @ rest) n"
proof -
  have "take n (strncpy u n @ rest) = strncpy u n"
    by simp
  then have "c_str (take n (strncpy u n @ rest)) = c_str (take n (c_str u @ replicate n NUL))"
    by (simp only: strncpy_def)
  also have "\<dots> = take n (c_str (c_str u @ replicate n NUL))"
    by (rule c_str_take)
  also have "\<dots> = take n (c_str u)"
    by (simp only: c_str_idem_pad)
  also have "\<dots> = c_str (take n u)"
    by (rule c_str_take [symmetric])
  finally show ?thesis
    by (simp only: strncmp_eq_def)
qed

lemma length_make_record [simp]: "length (make_record u t v) = RECSZ"
  by (simp add: make_record_def RECSZ_def)

lemma slot_day_make_record [simp]: "slot_day (make_record u t v) = t"
  by (simp add: make_record_def slot_day_def)

lemma slot_used_make_record [simp]: "slot_used (make_record u t v) = v"
  by (simp add: make_record_def slot_used_def)

lemma match_make_record: "strncmp_eq u (make_record u t v) (NAME_MAX + 1)"
  by (simp add: make_record_def strncmp_strncpy)

lemma state_header_eq: "state_header = ''Format: '' @ [CHR 0x01, NUL, NUL, NUL]"
  by code_simp

subsection \<open>The scans of the state file\<close>

lemma RECSZ_pos: "0 < RECSZ"
  by (simp add: RECSZ_def)

lemma get_scan_hit:
  assumes "scan_ready u buf bb" "length slot = RECSZ" "strncmp_eq u slot (NAME_MAX + 1)"
  shows "get_scan u t (front @ slot @ rest) (length front) buf bb =
           (if slot_day slot <s t then 0 else slot_used slot)"
proof -
  have rd: "sys_read (front @ slot @ rest) (length front) RECSZ = slot"
    using assms(2) by (simp add: sys_read_def)
  have "get_scan u t (front @ slot @ rest) (length front) buf bb =
          get_scan u t (front @ slot @ rest) (length front + RECSZ) slot RECSZ"
    using assms(1,2) RECSZ_pos
    by (subst get_scan.simps) (auto simp: scan_ready_def rd Let_def)
  also have "\<dots> = (if slot_day slot <s t then 0 else slot_used slot)"
    using assms(3) by (subst get_scan.simps) (simp add: Let_def slot_day_def slot_used_def)
  finally show ?thesis .
qed

lemma get_scan_miss:
  assumes "scan_ready u buf bb" "length slot = RECSZ" "\<not> strncmp_eq u slot (NAME_MAX + 1)"
  shows "get_scan u t (front @ slot @ rest) (length front) buf bb =
           get_scan u t (front @ slot @ rest) (length front + RECSZ) slot RECSZ
         \<and> scan_ready u slot RECSZ"
proof -
  have rd: "sys_read (front @ slot @ rest) (length front) RECSZ = slot"
    using assms(2) by (simp add: sys_read_def)
  have "get_scan u t (front @ slot @ rest) (length front) buf bb =
          get_scan u t (front @ slot @ rest) (length front + RECSZ) slot RECSZ"
    using assms(1,2) RECSZ_pos
    by (subst get_scan.simps) (auto simp: scan_ready_def rd Let_def)
  then show ?thesis
    using assms(2,3) by (simp add: scan_ready_def)
qed

lemma get_scan_skip:
  assumes "\<forall>s \<in> set pre. length s = RECSZ \<and> \<not> strncmp_eq u s (NAME_MAX + 1)"
    and "scan_ready u buf bb"
  shows "\<exists>buf' bb'. scan_ready u buf' bb' \<and>
           get_scan u t (front @ concat pre @ rest) (length front) buf bb =
           get_scan u t (front @ concat pre @ rest) (length front + length (concat pre)) buf' bb'"
  using assms
proof (induction pre arbitrary: front buf bb)
  case Nil
  then show ?case by auto
next
  case (Cons s pre)
  from Cons.prems have s: "length s = RECSZ" "\<not> strncmp_eq u s (NAME_MAX + 1)"
    and pre: "\<forall>s \<in> set pre. length s = RECSZ \<and> \<not> strncmp_eq u s (NAME_MAX + 1)"
    by auto
  from get_scan_miss [OF Cons.prems(2) s, of t front "concat pre @ rest"]
  have step: "get_scan u t (front @ s @ concat pre @ rest) (length front) buf bb =
              get_scan u t (front @ s @ concat pre @ rest) (length front + RECSZ) s RECSZ"
    and ready: "scan_ready u s RECSZ"
    by auto
  from Cons.IH [OF pre ready, of "front @ s"] s(1)
  obtain buf' bb' where "scan_ready u buf' bb'"
    and "get_scan u t (front @ s @ concat pre @ rest) (length front + RECSZ) s RECSZ =
         get_scan u t (front @ s @ concat pre @ rest)
           (length front + RECSZ + length (concat pre)) buf' bb'"
    by auto
  with step show ?case
    by (auto simp: s(1) add.assoc)
qed

lemma get_scan_tail:
  assumes "scan_ready u buf bb" "length rest < RECSZ"
  shows "get_scan u t (front @ rest) (length front) buf bb = 0"
proof (cases "rest = []")
  case True
  with assms(1) RECSZ_pos show ?thesis
    by (subst get_scan.simps) (auto simp: scan_ready_def sys_read_def Let_def)
next
  case False
  have rd: "sys_read (front @ rest) (length front) RECSZ = rest"
    using assms(2) by (simp add: sys_read_def)
  have "get_scan u t (front @ rest) (length front) buf bb =
          get_scan u t (front @ rest) (length front + length rest)
            (rest @ drop (length rest) buf) (length rest)"
    using assms False
    by (subst get_scan.simps) (auto simp: scan_ready_def rd Let_def)
  also have "\<dots> = 0"
    using assms(2) by (subst get_scan.simps) (simp add: sys_read_def Let_def)
  finally show ?thesis .
qed

lemma length_state_header [simp]: "length state_header = 12"
  by code_simp

lemma header_magic: "strncmp_eq (take 12 (state_header @ body)) ''Format: '' 8"
proof -
  have "strncmp_eq state_header ''Format: '' 8"
    by code_simp
  then show ?thesis by simp
qed

lemma header_version: "load32 (take 4 (drop 8 (state_header @ body))) = 1"
proof -
  have "load32 (take 4 (drop 8 state_header)) = 1"
    by code_simp
  then show ?thesis by simp
qed

lemma open_existing:
  assumes "can_open w" "fs w p = Some (Regular (state_header @ body))"
  shows "open_state_path w p = (Some (state_header @ body, 12), w)"
  using assms header_magic [of body] header_version [of body]
  by (auto simp: open_state_path_def can_open_def)

lemma open_keeps_existing:
  assumes "fs w p = Some n"
  shows "snd (open_state_path w p) = w"
  using assms by (auto simp: open_state_path_def split: node.splits)

lemma scan_ready_init: "scan_ready u (replicate RECSZ NUL) 0"
  by (simp add: scan_ready_def)

lemma get_scan_found:
  assumes pre: "\<forall>s \<in> set pre. length s = RECSZ \<and> \<not> strncmp_eq u s (NAME_MAX + 1)"
    and slot: "length slot = RECSZ" "strncmp_eq u slot (NAME_MAX + 1)"
  shows "get_scan u t (state_header @ concat pre @ slot @ rest) 12 (replicate RECSZ NUL) 0 =
           (if slot_day slot <s t then 0 else slot_used slot)"
proof -
  from get_scan_skip [OF pre scan_ready_init, of t state_header "slot @ rest"]
  obtain buf' bb' where r: "scan_ready u buf' bb'"
    and eq: "get_scan u t (state_header @ concat pre @ slot @ rest) 12 (replicate RECSZ NUL) 0 =
             get_scan u t (state_header @ concat pre @ slot @ rest) (12 + length (concat pre)) buf' bb'"
    by auto
  from get_scan_hit [OF r slot, of t "state_header @ concat pre" rest]
  show ?thesis by (simp add: eq)
qed

lemma get_scan_not_found:
  assumes pre: "\<forall>s \<in> set pre. length s = RECSZ \<and> \<not> strncmp_eq u s (NAME_MAX + 1)"
    and tail: "length tail < RECSZ"
  shows "get_scan u t (state_header @ concat pre @ tail) 12 (replicate RECSZ NUL) 0 = 0"
proof -
  from get_scan_skip [OF pre scan_ready_init, of t state_header tail]
  obtain buf' bb' where r: "scan_ready u buf' bb'"
    and eq: "get_scan u t (state_header @ concat pre @ tail) 12 (replicate RECSZ NUL) 0 =
             get_scan u t (state_header @ concat pre @ tail) (12 + length (concat pre)) buf' bb'"
    by auto
  from get_scan_tail [OF r tail, of t "state_header @ concat pre"]
  show ?thesis by (simp add: eq)
qed

lemma get_found:
  assumes "can_open w"
    and "fs w p = Some (Regular (state_header @ concat pre @ slot @ rest))"
    and "\<forall>s \<in> set pre. length s = RECSZ \<and> \<not> strncmp_eq u s (NAME_MAX + 1)"
    and "length slot = RECSZ" "strncmp_eq u slot (NAME_MAX + 1)"
  shows "get_used_time_for_user w p u =
           ((PAM_SUCCESS, if slot_day slot <s time_today w then 0 else slot_used slot), w)"
  using open_existing [OF assms(1,2)] get_scan_found [OF assms(3-5)]
  by (simp add: get_used_time_for_user_def)

lemma get_not_found:
  assumes "can_open w"
    and "fs w p = Some (Regular (state_header @ concat pre @ tail))"
    and "\<forall>s \<in> set pre. length s = RECSZ \<and> \<not> strncmp_eq u s (NAME_MAX + 1)"
    and "length tail < RECSZ"
  shows "get_used_time_for_user w p u = ((PAM_SUCCESS, 0), w)"
  using open_existing [OF assms(1,2)] get_scan_not_found [OF assms(3,4)]
  by (simp add: get_used_time_for_user_def)


lemma set_scan_hit:
  assumes "scan_ready u buf bb" "length slot = RECSZ" "strncmp_eq u slot (NAME_MAX + 1)"
  shows "set_scan u (front @ slot @ rest) (length front) buf bb = length front"
proof -
  have rd: "sys_read (front @ slot @ rest) (length front) RECSZ = slot"
    using assms(2) by (simp add: sys_read_def)
  have "set_scan u (front @ slot @ rest) (length front) buf bb =
          set_scan u (front @ slot @ rest) (length front + RECSZ) slot RECSZ"
    using assms(1,2) RECSZ_pos
    by (subst set_scan.simps) (auto simp: scan_ready_def rd Let_def)
  also have "\<dots> = length front"
    using assms(3) by (subst set_scan.simps) simp
  finally show ?thesis .
qed

lemma set_scan_miss:
  assumes "scan_ready u buf bb" "length slot = RECSZ" "\<not> strncmp_eq u slot (NAME_MAX + 1)"
  shows "set_scan u (front @ slot @ rest) (length front) buf bb =
           set_scan u (front @ slot @ rest) (length front + RECSZ) slot RECSZ
         \<and> scan_ready u slot RECSZ"
proof -
  have rd: "sys_read (front @ slot @ rest) (length front) RECSZ = slot"
    using assms(2) by (simp add: sys_read_def)
  have "set_scan u (front @ slot @ rest) (length front) buf bb =
          set_scan u (front @ slot @ rest) (length front + RECSZ) slot RECSZ"
    using assms(1,2) RECSZ_pos
    by (subst set_scan.simps) (auto simp: scan_ready_def rd Let_def)
  then show ?thesis
    using assms(2,3) by (simp add: scan_ready_def)
qed

lemma set_scan_skip:
  assumes "\<forall>s \<in> set pre. length s = RECSZ \<and> \<not> strncmp_eq u s (NAME_MAX + 1)"
    and "scan_ready u buf bb"
  shows "\<exists>buf' bb'. scan_ready u buf' bb' \<and>
           set_scan u (front @ concat pre @ rest) (length front) buf bb =
           set_scan u (front @ concat pre @ rest) (length front + length (concat pre)) buf' bb'"
  using assms
proof (induction pre arbitrary: front buf bb)
  case Nil
  then show ?case by auto
next
  case (Cons s pre)
  from Cons.prems have s: "length s = RECSZ" "\<not> strncmp_eq u s (NAME_MAX + 1)"
    and pre: "\<forall>s \<in> set pre. length s = RECSZ \<and> \<not> strncmp_eq u s (NAME_MAX + 1)"
    by auto
  from set_scan_miss [OF Cons.prems(2) s, of front "concat pre @ rest"]
  have step: "set_scan u (front @ s @ concat pre @ rest) (length front) buf bb =
              set_scan u (front @ s @ concat pre @ rest) (length front + RECSZ) s RECSZ"
    and ready: "scan_ready u s RECSZ"
    by auto
  from Cons.IH [OF pre ready, of "front @ s"] s(1)
  obtain buf' bb' where "scan_ready u buf' bb'"
    and "set_scan u (front @ s @ concat pre @ rest) (length front + RECSZ) s RECSZ =
         set_scan u (front @ s @ concat pre @ rest)
           (length front + RECSZ + length (concat pre)) buf' bb'"
    by auto
  with step show ?case
    by (auto simp: s(1) add.assoc)
qed

lemma set_scan_tail:
  assumes "scan_ready u buf bb" "length rest < RECSZ"
  shows "set_scan u (front @ rest) (length front) buf bb = length front + length rest"
proof (cases "rest = []")
  case True
  with assms(1) RECSZ_pos show ?thesis
    by (subst set_scan.simps) (auto simp: scan_ready_def sys_read_def Let_def)
next
  case False
  have rd: "sys_read (front @ rest) (length front) RECSZ = rest"
    using assms(2) by (simp add: sys_read_def)
  have "set_scan u (front @ rest) (length front) buf bb =
          set_scan u (front @ rest) (length front + length rest)
            (rest @ drop (length rest) buf) (length rest)"
    using assms False
    by (subst set_scan.simps) (auto simp: scan_ready_def rd Let_def)
  also have "\<dots> = length front + length rest"
    using assms(2) by (subst set_scan.simps) (simp add: sys_read_def Let_def)
  finally show ?thesis .
qed

lemma set_scan_found:
  assumes pre: "\<forall>s \<in> set pre. length s = RECSZ \<and> \<not> strncmp_eq u s (NAME_MAX + 1)"
    and slot: "length slot = RECSZ" "strncmp_eq u slot (NAME_MAX + 1)"
  shows "set_scan u (state_header @ concat pre @ slot @ rest) 12 (replicate RECSZ NUL) 0 =
           12 + length (concat pre)"
proof -
  from set_scan_skip [OF pre scan_ready_init, of state_header "slot @ rest"]
  obtain buf' bb' where r: "scan_ready u buf' bb'"
    and eq: "set_scan u (state_header @ concat pre @ slot @ rest) 12 (replicate RECSZ NUL) 0 =
             set_scan u (state_header @ concat pre @ slot @ rest) (12 + length (concat pre)) buf' bb'"
    by auto
  from set_scan_hit [OF r slot, of "state_header @ concat pre" rest]
  show ?thesis by (simp add: eq)
qed

lemma set_scan_not_found:
  assumes pre: "\<forall>s \<in> set pre. length s = RECSZ \<and> \<not> strncmp_eq u s (NAME_MAX + 1)"
    and tail: "length tail < RECSZ"
  shows "set_scan u (state_header @ concat pre @ tail) 12 (replicate RECSZ NUL) 0 =
           12 + length (concat pre) + length tail"
proof -
  from set_scan_skip [OF pre scan_ready_init, of state_header tail]
  obtain buf' bb' where r: "scan_ready u buf' bb'"
    and eq: "set_scan u (state_header @ concat pre @ tail) 12 (replicate RECSZ NUL) 0 =
             set_scan u (state_header @ concat pre @ tail) (12 + length (concat pre)) buf' bb'"
    by auto
  from set_scan_tail [OF r tail, of "state_header @ concat pre"]
  show ?thesis by (simp add: eq)
qed

lemma set_found:
  assumes "can_open w" "write_ok w"
    and "fs w p = Some (Regular (state_header @ concat pre @ slot @ rest))"
    and "\<forall>s \<in> set pre. length s = RECSZ \<and> \<not> strncmp_eq u s (NAME_MAX + 1)"
    and "length slot = RECSZ" "strncmp_eq u slot (NAME_MAX + 1)"
  shows "set_used_time_for_user w p u v =
           (PAM_SUCCESS,
            w\<lparr>fs := (fs w)(p \<mapsto> Regular (state_header @ concat pre
                                            @ make_record u (time_today w) v @ rest))\<rparr>)"
  using open_existing [OF assms(1,3)] set_scan_found [OF assms(4-6)] assms(2,5)
  by (simp add: set_used_time_for_user_def sys_write_def Let_def)

lemma set_not_found:
  assumes "can_open w" "write_ok w"
    and "fs w p = Some (Regular (state_header @ concat pre @ tail))"
    and "\<forall>s \<in> set pre. length s = RECSZ \<and> \<not> strncmp_eq u s (NAME_MAX + 1)"
    and "length tail < RECSZ"
  shows "set_used_time_for_user w p u v =
           (PAM_SUCCESS,
            w\<lparr>fs := (fs w)(p \<mapsto> Regular (state_header @ concat pre @ tail
                                            @ make_record u (time_today w) v))\<rparr>)"
  using open_existing [OF assms(1,3)] set_scan_not_found [OF assms(4,5)] assms(2)
  by (simp add: set_used_time_for_user_def sys_write_def Let_def)

lemma set_scan_header: "set_scan u state_header 12 (replicate RECSZ NUL) 0 = 12"
  using set_scan_not_found [of "[]" u "[]"] RECSZ_pos by simp

lemma time_today_fs [simp]: "time_today (w\<lparr>fs := f\<rparr>) = time_today w"
  by (simp add: time_today_def)

lemma set_created:
  assumes "can_open w" "write_ok w" "creat_ok w" "fs w p = None"
  shows "set_used_time_for_user w p u v =
           (PAM_SUCCESS,
            w\<lparr>fs := (fs w)(p \<mapsto> Regular (state_header @ make_record u (time_today w) v))\<rparr>)"
  using assms set_scan_header [of u]
  by (auto simp: set_used_time_for_user_def open_state_path_def can_open_def sys_write_def Let_def)

lemma unat_USEC_INFINITY: "unat USEC_INFINITY = 2 ^ 64 - 1"
  by (simp add: USEC_INFINITY_def unsigned_minus_1_eq_mask mask_eq_exp_minus_1)

lemma add_used_time_sat:
  "unat (add_used_time used elapsed) = min (unat used + unat elapsed) (2 ^ 64 - 1)"
proof -
  have room: "unat (USEC_INFINITY - used) = 2 ^ 64 - 1 - unat used"
    by (simp add: unat_sub USEC_INFINITY_def unsigned_minus_1_eq_mask mask_eq_exp_minus_1)
  have bound: "unat used < 2 ^ 64" "unat elapsed < 2 ^ 64"
    using unsigned_less [of used, where ?'a = nat] unsigned_less [of elapsed, where ?'a = nat]
    by simp_all
  show ?thesis
  proof (cases "USEC_INFINITY - used < elapsed")
    case True
    then have "2 ^ 64 - 1 - unat used < unat elapsed"
      by (simp add: word_less_nat_alt room)
    with True show ?thesis
      by (simp add: add_used_time_def unat_USEC_INFINITY)
  next
    case False
    then have le: "unat elapsed + unat used \<le> 2 ^ 64 - 1"
      using bound by (simp add: word_less_nat_alt room)
    then have "unat (elapsed + used) = unat elapsed + unat used"
      by (simp add: unat_add_lem [THEN iffD1])
    with False le show ?thesis
      by (simp add: add_used_time_def)
  qed
qed

lemma time_today_open [simp]: "time_today (snd (open_state_path w p)) = time_today w"
  by (auto simp: open_state_path_def time_today_def split: option.splits node.splits)

lemma set_writes_record:
  assumes "set_used_time_for_user w p u v = (PAM_SUCCESS, w')"
  shows "\<exists>front back. fs w' p = Some (Regular (front @ make_record u (time_today w) v @ back))"
proof (cases "open_state_path w p")
  case (Pair fdo w1)
  then have t: "time_today w1 = time_today w"
    using time_today_open [of w p] by simp
  show ?thesis
  proof (cases fdo)
    case None
    with Pair assms show ?thesis by (simp add: set_used_time_for_user_def)
  next
    case (Some fd)
    obtain data pos where fd: "fd = (data, pos)" by (cases fd)
    from assms Pair Some fd
    have "fs w' p = Some (Regular (sys_write data (set_scan u data pos (replicate RECSZ NUL) 0)
                                     (make_record u (time_today w) v)))"
      by (auto simp: set_used_time_for_user_def Let_def t split: if_splits)
    then show ?thesis
      unfolding sys_write_def by blast
  qed
qed

lemma time_today_zone_at:
  assumes "localtime_r w = zone_at off"
  shows "time_today w = word_of_int ((sint (now w) + off) div 86400 * 86400)"
  using assms by (simp add: time_today_def zone_at_def timegm_def Let_def)

lemma set_then_get:
  assumes env: "can_open w" "write_ok w" "creat_ok w"
    and ledger: "fs w p = None \<or>
                 (\<exists>slots. fs w p = Some (Regular (state_header @ concat slots))
                    \<and> (\<forall>s \<in> set slots. length s = RECSZ))"
    and later: "fs w2 = fs (snd (set_used_time_for_user w p u v))" "can_open w2"
               "time_today w2 = time_today w"
  shows "fst (set_used_time_for_user w p u v) = PAM_SUCCESS
       \<and> get_used_time_for_user w2 p u = ((PAM_SUCCESS, v), w2)"
proof -
  let ?rec = "make_record u (time_today w) v"
  have hit: "get_used_time_for_user w2 p u = ((PAM_SUCCESS, v), w2)"
    if "fs w2 p = Some (Regular (state_header @ concat pre @ ?rec @ rest))"
      and "\<forall>s \<in> set pre. length s = RECSZ \<and> \<not> strncmp_eq u s (NAME_MAX + 1)"
    for pre rest
    using get_found [OF later(2) that(1) that(2) length_make_record match_make_record]
    by (simp add: later(3))
  from ledger show ?thesis
  proof
    assume "fs w p = None"
    from set_created [OF env this, of u v] hit [of "[]" "[]"] later(1)
    show ?thesis by simp
  next
    assume "\<exists>slots. fs w p = Some (Regular (state_header @ concat slots))
                    \<and> (\<forall>s \<in> set slots. length s = RECSZ)"
    then obtain slots where f: "fs w p = Some (Regular (state_header @ concat slots))"
      and len: "\<forall>s \<in> set slots. length s = RECSZ"
      by blast
    show ?thesis
    proof (cases "\<exists>s \<in> set slots. strncmp_eq u s (NAME_MAX + 1)")
      case True
      from split_list_first_prop [OF this]
      obtain pre s post where sp: "slots = pre @ s # post"
        and s: "strncmp_eq u s (NAME_MAX + 1)"
        and pre: "\<forall>x \<in> set pre. \<not> strncmp_eq u x (NAME_MAX + 1)"
        by blast
      have pre': "\<forall>x \<in> set pre. length x = RECSZ \<and> \<not> strncmp_eq u x (NAME_MAX + 1)"
        using pre len sp by simp
      have f': "fs w p = Some (Regular (state_header @ concat pre @ s @ concat post))"
        using f sp by simp
      have "length s = RECSZ" using len sp by simp
      from set_found [OF env(1,2) f' pre' this s, of v] hit [OF _ pre', of "concat post"] later(1)
      show ?thesis by simp
    next
      case False
      then have pre': "\<forall>x \<in> set slots. length x = RECSZ \<and> \<not> strncmp_eq u x (NAME_MAX + 1)"
        using len by simp
      have f': "fs w p = Some (Regular (state_header @ concat slots @ []))"
        using f by simp
      from set_not_found [OF env(1,2) f' pre', of v] hit [OF _ pre', of "[]"] later(1) RECSZ_pos
      show ?thesis by simp
    qed
  qed
qed

subsection \<open>Arguments and the limits file\<close>

lemma strlen_path [simp]: "strlen ''path='' = 5"
  by code_simp

lemma strlen_statepath [simp]: "strlen ''statepath='' = 10"
  by code_simp

lemma acct_args_unknown:
  assumes "a \<in> set argv" "\<not> strncmp_eq a ''path='' 5" "\<not> strncmp_eq a ''statepath='' 10"
  shows "acct_args argv p s = None"
  using assms by (induction argv arbitrary: p s) auto

lemma close_args_unknown:
  assumes "a \<in> set argv" "\<not> strncmp_eq a ''statepath='' 10"
  shows "close_args argv s = None"
  using assms by (induction argv arbitrary: s) auto

lemma fgets_complete:
  assumes "complete_line l"
  shows "fgets 1024 (l @ rest) = Some (l, rest)"
proof -
  from assms obtain b where l: "l = b @ [NL]" and b: "NL \<notin> set b" and len: "length l < 1024"
    unfolding complete_line_def
    by (metis append_butlast_last_id)
  have "takeWhile (\<lambda>c. c \<noteq> NL) (l @ rest) = b"
    using b by (auto simp: l takeWhile_append2 takeWhile_tail)
  then have k: "min (1024 - 1) (Suc (length (takeWhile (\<lambda>c. c \<noteq> NL) (l @ rest)))) = length l"
    using len by (simp add: l)
  have "l @ rest \<noteq> []"
    by (simp add: l)
  then show ?thesis
    unfolding fgets_def Let_def k by simp
qed

lemma read_config_lines:
  assumes "\<forall>l \<in> set lines. complete_line l \<and>
             (\<exists>user limit. parse_config_line l = Inr (PAM_SUCCESS, user, limit))"
  shows "read_config (concat lines) acc = Inr (PAM_SUCCESS, acc @ concat (map line_entries lines))"
  using assms
proof (induction lines arbitrary: acc)
  case Nil
  show ?case by (subst read_config.simps) (simp add: fgets_def)
next
  case (Cons l lines)
  then obtain user limit where cl: "complete_line l"
    and p: "parse_config_line l = Inr (PAM_SUCCESS, user, limit)"
    by auto
  have step: "read_config (l @ concat lines) acc =
        read_config (concat lines) (acc @ line_entries l)"
    by (subst read_config.simps)
       (simp add: fgets_complete [OF cl] p line_entries_def split: option.splits)
  show ?case
    using Cons.IH [of "acc @ line_entries l"] Cons.prems by (simp add: step)
qed

lemma eat_trailing_blank:
  assumes "len \<le> length line" "\<forall>i<len. isspace (line ! i)"
  shows "eat_trailing line len = Inl OutOfBounds"
  using assms
proof (induction len arbitrary: line)
  case 0
  show ?case by (subst eat_trailing.simps) (simp add: rd_def)
next
  case (Suc n)
  then have "rd line (int (Suc n) - 1) = Some (line ! n)" "isspace (line ! n)"
    by (simp_all add: rd_def)
  moreover have "eat_trailing (line[n := NUL]) n = Inl OutOfBounds"
    using Suc.prems by (intro Suc.IH) simp_all
  ultimately show ?case
    by (subst eat_trailing.simps) simp
qed

lemma isspace_plain: "isspace c \<Longrightarrow> c \<noteq> NUL \<and> c \<noteq> CHR ''#''"
  by (auto simp: isspace_def NUL_def)

lemma c_str_until_NUL: "NUL \<notin> set a \<Longrightarrow> c_str (a @ NUL # x) = a"
  by (auto simp: c_str_def takeWhile_tail)

lemma strlen_line:
  assumes "NUL \<notin> set pre"
  shows "strlen ((pre @ [NL]) @ [NUL]) = Suc (length pre)"
proof -
  have "NUL \<notin> set (pre @ [NL])"
    using assms by (simp add: NUL_def NL_def)
  then show ?thesis
    unfolding strlen_def by (subst c_str_until_NUL) simp_all
qed

lemma line_end: "rd ((pre @ [NL]) @ [NUL]) (int (Suc (length pre)) - 1) = Some NL"
  by (simp add: rd_def nth_append)

lemma strip_newline: "((pre @ [NL]) @ [NUL])[Suc (length pre) - 1 := NUL] = pre @ NUL # [NUL]"
  by (simp add: list_update_append)

lemma blank_prefix_faults:
  assumes ws: "\<forall>c \<in> set ws. isspace c"
  shows "eat_trailing (ws @ x) (length ws) = Inl OutOfBounds"
  using ws by (intro eat_trailing_blank) (simp_all add: nth_append)

lemma blank_line_out_of_bounds:
  assumes ws: "\<forall>c \<in> set ws. isspace c"
  shows "parse_config_line (ws @ [NL]) = Inl OutOfBounds"
proof -
  have plain: "NUL \<notin> set ws" "CHR ''#'' \<notin> set ws"
    using ws isspace_plain by blast+
  have nocomment: "strchr (ws @ NUL # [NUL]) (CHR ''#'') = None"
    using plain by (simp add: strchr_def c_str_until_NUL)
  show ?thesis
    unfolding parse_config_line_def Let_def strlen_line [OF plain(1)] line_end strip_newline
      nocomment
    by (simp add: blank_prefix_faults [OF ws])
qed

lemma comment_line_out_of_bounds:
  assumes ws: "\<forall>c \<in> set ws. isspace c" and cmt: "NUL \<notin> set cmt"
  shows "parse_config_line ((ws @ CHR ''#'' # cmt) @ [NL]) = Inl OutOfBounds"
proof -
  let ?pre = "ws @ CHR ''#'' # cmt"
  have plain: "NUL \<notin> set ws" "CHR ''#'' \<notin> set ws"
    using ws isspace_plain by blast+
  have pre: "NUL \<notin> set ?pre"
    using plain cmt by (simp add: NUL_def)
  have "takeWhile (\<lambda>x. x \<noteq> CHR ''#'') ?pre = ws"
    using plain(2) by (auto simp: takeWhile_tail)
  then have comment: "strchr (?pre @ NUL # [NUL]) (CHR ''#'') = Some (length ws)"
    unfolding strchr_def c_str_until_NUL [OF pre] by simp
  have upd2: "(?pre @ NUL # [NUL])[length ws := NUL] = ws @ (NUL # cmt @ NUL # [NUL])"
    by (simp add: list_update_append)
  show ?thesis
    unfolding parse_config_line_def Let_def strlen_line [OF pre] line_end strip_newline comment
    by (simp only: option.case upd2 blank_prefix_faults [OF ws] sum.case if_True if_False
          simp_thms)
qed

lemma scan_table_append:
  "scan_table (xs @ ys) u r = scan_table ys u (scan_table xs u r)"
  by (induction xs arbitrary: r) auto

lemma scan_table_no_match:
  "\<forall>(n, l) \<in> set xs. \<not> strcmp_eq n u \<Longrightarrow> scan_table xs u r = r"
  by (induction xs arbitrary: r) auto

lemma scan_table_last:
  assumes "strcmp_eq name u" "\<forall>(n, l) \<in> set post. \<not> strcmp_eq n u"
  shows "scan_table (pre @ (name, limit) # post) u r = Some limit"
  using assms by (simp add: scan_table_append scan_table_no_match)

lemma acct_mgmt_to_table:
  assumes "acct_args argv None None = Some (po, sp)"
    and "pam_get_item h = (PAM_SUCCESS, Some u)"
    and "parse_config_file w (case po of None \<Rightarrow> DEFAULT_CONFIG_PATH | Some p \<Rightarrow> p) = Inr (PAM_SUCCESS, tbl)"
    and "scan_table tbl u None = Some txt"
  shows "pam_sm_acct_mgmt c h argv w =
           enforce_limit c h w (case sp of None \<Rightarrow> DEFAULT_STATE_PATH | Some p \<Rightarrow> p) u txt"
  using assms by (simp add: pam_sm_acct_mgmt_def)


subsection \<open>The sample environments\<close>

lemma load64_zeros: "load64 (replicate 8 NUL) = 0"
  by code_simp

lemma today_sample: "time_today (sample_world f) = 1699920000"
  by (simp add: time_today_def sample_world_def zone_at_def timegm_def Let_def)

lemma can_open_sample: "can_open (sample_world f)"
  by (simp add: can_open_def sample_world_def)

lemma make_record_ted:
  "make_record ''ted'' t v = ''ted'' @ replicate 253 NUL @ store64 t @ store64 v"
  by (simp add: make_record_def strncpy_def c_str_def NUL_def NAME_MAX_def)

lemma truncated_tail:
  "take 50 (state_header @ make_record ''ted'' t v) = state_header @ ''ted'' @ replicate 35 NUL"
  by (simp add: make_record_ted)

lemma c_str_ted: "c_str (''ted'' @ replicate (Suc n) NUL @ x) = ''ted''"
  by (simp add: c_str_def NUL_def)

lemma straddling_length:
  "length ((''ted'' @ replicate 35 NUL) @ take 234 (make_record ''ted'' t v)) = RECSZ"
  by (simp add: RECSZ_def NAME_MAX_def)

lemma name_field_size: "NAME_MAX + 1 = 256"
  by (simp add: NAME_MAX_def)

lemma straddling_name:
  "strncmp_eq ''ted'' ((''ted'' @ replicate 35 NUL) @ take 234 (make_record ''ted'' t v))
     (NAME_MAX + 1)"
proof -
  have "take 256 ((''ted'' @ replicate 35 NUL) @ take 234 (make_record ''ted'' t v))
          = ''ted'' @ replicate (Suc 34) NUL @ take 218 (make_record ''ted'' t v)"
    by simp
  then have "c_str (take 256 ((''ted'' @ replicate 35 NUL) @ take 234 (make_record ''ted'' t v)))
          = ''ted''"
    by (simp only: c_str_ted)
  moreover have "c_str (take 256 ''ted'') = ''ted''"
    by (simp add: c_str_def NUL_def)
  ultimately show ?thesis
    by (simp only: strncmp_eq_def name_field_size)
qed

lemma straddling_day:
  "slot_day ((''ted'' @ replicate 35 NUL) @ take 234 (make_record ''ted'' t v)) = 0"
proof -
  have "take 8 (drop 256 ((''ted'' @ replicate 35 NUL) @ take 234 (make_record ''ted'' t v)))
          = replicate 8 NUL"
    by (simp add: make_record_ted drop_take)
  then show ?thesis
    by (simp add: slot_day_def NAME_MAX_def load64_zeros)
qed



lemma sample_args:
  "acct_args [''path=data/limits'', ''statepath=data/state''] None None
     = Some (Some ''data/limits'', Some ''data/state'')"
  by code_simp

lemma sample_close_args:
  "close_args [''statepath=data/state''] None = Some (Some ''data/state'')"
  by code_simp

lemma sample_user: "pam_get_item (sample_handle d r) = (PAM_SUCCESS, Some ''ted'')"
  by (simp add: pam_get_item_def sample_handle_def)

lemma sample_lines:
  "parse_config_line ''ted 5h\<newline>'' = Inr (PAM_SUCCESS, Some ''ted'', Some ''5h'')"
  "parse_config_line ''ted 9h\<newline>'' = Inr (PAM_SUCCESS, Some ''ted'', Some ''9h'')"
  "parse_config_line ''bob 1h\<newline>'' = Inr (PAM_SUCCESS, Some ''bob'', Some ''1h'')"
  "parse_config_line ''ted 12h\<newline>'' = Inr (PAM_SUCCESS, Some ''ted'', Some ''12h'')"
  "parse_config_line ''ann 2h\<newline>'' = Inr (PAM_SUCCESS, Some ''ann'', Some ''2h'')"
  by code_simp+

lemma sample_complete:
  "complete_line ''ted 5h\<newline>''" "complete_line ''ted 9h\<newline>''"
  "complete_line ''bob 1h\<newline>''" "complete_line ''ted 12h\<newline>''"
  "complete_line ''ann 2h\<newline>''"
  by (simp_all add: complete_line_def NL_def)

lemma scenario_config:
  "parse_config_file scenario_world ''data/limits'' = Inr (PAM_SUCCESS, [(''ted'', ''12h'')])"
proof -
  have "read_config (concat [''ted 12h\<newline>'']) [] = Inr (PAM_SUCCESS, [] @ concat (map line_entries [''ted 12h\<newline>'']))"
    by (rule read_config_lines) (simp add: sample_complete sample_lines)
  then show ?thesis
    by (simp add: parse_config_file_def scenario_world_def sample_world_def line_entries_def sample_lines)
qed

lemma scenario_ledger:
  "get_used_time_for_user scenario_world ''data/state'' ''ted''
     = ((PAM_SUCCESS, 18000000000), scenario_world)"
proof -
  have "fs scenario_world ''data/state'' =
          Some (Regular (state_header @ concat [] @ make_record ''ted'' 1699920000 18000000000 @ []))"
    by (simp add: scenario_world_def sample_world_def)
  from get_found [OF _ this _ length_make_record match_make_record]
  show ?thesis
    by (simp add: scenario_world_def can_open_sample today_sample)
qed

lemma sample_sum: "add_used_time 18000000000 (3600 * USEC_PER_SEC) = 21600000000"
  by (simp add: add_used_time_def USEC_PER_SEC_def USEC_INFINITY_def)

lemma sample_limit: "parse_time sample_codec ''12h'' = Some 43200000000"
  by (simp add: sample_codec_def)

lemma sample_remaining: "format_timespan sample_codec 25200000000 = Some ''7h''"
  by (simp add: sample_codec_def)

lemma sample_select: "scan_table [(''ted'', ''12h'')] ''ted'' None = Some ''12h''"
  by (simp add: strcmp_eq_def)


subsection \<open>Blank lines and comments when the byte in front of the buffer is read\<close>

text \<open>When the byte in front of the buffer is not white space, the stripping loop stops
  at \<open>length = 0\<close> and the line is skipped.\<close>

lemma eat_trailing_mem_blank:
  assumes "\<not> isspace stray" "len \<le> length line" "\<forall>i<len. isspace (line ! i)"
  shows "\<exists>line'. eat_trailing_mem stray line len = Inr (line', 0)"
  using assms(2,3)
proof (induction len arbitrary: line)
  case 0
  show ?case using assms(1) by (subst eat_trailing_mem.simps) simp
next
  case (Suc n)
  then have "rd line (int (Suc n) - 1) = Some (line ! n)" "isspace (line ! n)"
    by (simp_all add: rd_def)
  moreover have "\<exists>line'. eat_trailing_mem stray (line[n := NUL]) n = Inr (line', 0)"
    using Suc.prems by (intro Suc.IH) simp_all
  ultimately show ?case
    by (subst eat_trailing_mem.simps) simp
qed

lemma blank_prefix_skipped:
  assumes "\<not> isspace stray" "\<forall>c \<in> set ws. isspace c"
  shows "\<exists>line'. eat_trailing_mem stray (ws @ x) (length ws) = Inr (line', 0)"
  using assms by (intro eat_trailing_mem_blank) (simp_all add: nth_append)

lemma blank_line_skipped:
  assumes stray: "\<not> isspace stray" and ws: "\<forall>c \<in> set ws. isspace c"
  shows "parse_config_line_mem stray (ws @ [NL]) = Inr (PAM_SUCCESS, None, None)"
proof -
  have plain: "NUL \<notin> set ws" "CHR ''#'' \<notin> set ws"
    using ws isspace_plain by blast+
  have nocomment: "strchr (ws @ NUL # [NUL]) (CHR ''#'') = None"
    using plain by (simp add: strchr_def c_str_until_NUL)
  from blank_prefix_skipped [OF stray ws, of "NUL # [NUL]"]
  obtain line' where "eat_trailing_mem stray (ws @ NUL # [NUL]) (length ws) = Inr (line', 0)"
    by blast
  then show ?thesis
    unfolding parse_config_line_mem_def Let_def strlen_line [OF plain(1)] line_end strip_newline
      nocomment
    by simp
qed

lemma comment_line_skipped:
  assumes stray: "\<not> isspace stray" and ws: "\<forall>c \<in> set ws. isspace c"
    and cmt: "NUL \<notin> set cmt"
  shows "parse_config_line_mem stray ((ws @ CHR ''#'' # cmt) @ [NL]) = Inr (PAM_SUCCESS, None, None)"
proof -
  let ?pre = "ws @ CHR ''#'' # cmt"
  have plain: "NUL \<notin> set ws" "CHR ''#'' \<notin> set ws"
    using ws isspace_plain by blast+
  have pre: "NUL \<notin> set ?pre"
    using plain cmt by (simp add: NUL_def)
  have "takeWhile (\<lambda>x. x \<noteq> CHR ''#'') ?pre = ws"
    using plain(2) by (auto simp: takeWhile_tail)
  then have comment: "strchr (?pre @ NUL # [NUL]) (CHR ''#'') = Some (length ws)"
    unfolding strchr_def c_str_until_NUL [OF pre] by simp
  have upd2: "(?pre @ NUL # [NUL])[length ws := NUL] = ws @ (NUL # cmt @ NUL # [NUL])"
    by (simp add: list_update_append)
  from blank_prefix_skipped [OF stray ws, of "NUL # cmt @ NUL # [NUL]"]
  obtain line' where e: "eat_trailing_mem stray (ws @ (NUL # cmt @ NUL # [NUL])) (length ws) = Inr (line', 0)"
    by blast
  show ?thesis
    unfolding parse_config_line_mem_def Let_def strlen_line [OF pre] line_end strip_newline comment
    by (simp add: upd2 e del: append.simps append_assoc)
qed

lemma skipped_line_parse:
  assumes stray: "\<not> isspace stray" and cl: "complete_line l" and sk: "skipped_line l"
  shows "parse_config_line_mem stray l = Inr (PAM_SUCCESS, None, None)"
proof -
  define body where "body = butlast l"
  define ws where "ws = takeWhile (\<lambda>c. c \<noteq> CHR ''#'') body"
  have l: "l = body @ [NL]"
    using cl unfolding complete_line_def body_def by (metis append_butlast_last_id)
  have ws: "\<forall>c \<in> set ws. isspace c"
    using sk unfolding skipped_line_def ws_def body_def by (simp add: list_all_iff)
  have nul: "NUL \<notin> set body"
    using sk l unfolding skipped_line_def by auto
  have split: "ws @ dropWhile (\<lambda>c. c \<noteq> CHR ''#'') body = body"
    unfolding ws_def by (rule takeWhile_dropWhile_id)
  show ?thesis
  proof (cases "dropWhile (\<lambda>c. c \<noteq> CHR ''#'') body")
    case Nil
    with split have "body = ws" by simp
    with blank_line_skipped [OF stray ws] l show ?thesis by simp
  next
    case (Cons x cmt)
    have "\<not> hd (dropWhile (\<lambda>c. c \<noteq> CHR ''#'') body) \<noteq> CHR ''#''"
      by (rule hd_dropWhile) (simp add: Cons)
    then have "x = CHR ''#''"
      by (simp add: Cons)
    with Cons split have b: "body = ws @ CHR ''#'' # cmt"
      by simp
    have "NUL \<notin> set cmt"
      using nul by (subst (asm) b) simp
    from comment_line_skipped [OF stray ws this] l b show ?thesis by simp
  qed
qed

lemma read_config_mem_skipped:
  assumes stack: "\<forall>n. \<not> isspace (stack n)"
    and "\<forall>l \<in> set lines. complete_line l \<and> skipped_line l"
  shows "read_config_mem stack n (concat lines) acc = Inr (PAM_SUCCESS, acc)"
  using assms(2)
proof (induction lines arbitrary: n)
  case Nil
  show ?case by (subst read_config_mem.simps) (simp add: fgets_def)
next
  case (Cons l lines)
  then have cl: "complete_line l" and sk: "skipped_line l"
    by auto
  have p: "parse_config_line_mem (stack n) l = Inr (PAM_SUCCESS, None, None)"
    using stack cl sk by (intro skipped_line_parse) simp_all
  have "read_config_mem stack n (l @ concat lines) acc =
          read_config_mem stack (Suc n) (concat lines) acc"
    by (subst read_config_mem.simps) (simp add: fgets_complete [OF cl] p)
  with Cons.IH [of "Suc n"] Cons.prems show ?case by simp
qed

text \<open>The sample file of comments: skipped line by line here, a fault under the checked
  bounds.\<close>

lemma comments_lines:
  "complete_line ''# per-user time limits for login sessions\<newline>''"
  "complete_line ''\<newline>''"
  "complete_line ''#vorlon 5h30s\<newline>''"
  "complete_line ''  # lynn 30\<newline>''"
  by (simp_all add: complete_line_def NL_def)

lemma comments_skipped:
  "skipped_line ''# per-user time limits for login sessions\<newline>''"
  "skipped_line ''\<newline>''"
  "skipped_line ''#vorlon 5h30s\<newline>''"
  "skipped_line ''  # lynn 30\<newline>''"
  by code_simp+

lemma comments_strict:
  "parse_config_file comments_world ''data/only_comments'' = Inl OutOfBounds"
proof -
  define l where "l = ''# per-user time limits for login sessions\<newline>''"
  define rest where "rest = concat [''\<newline>'', ''#vorlon 5h30s\<newline>'', ''  # lynn 30\<newline>'']"
  have cl: "complete_line l"
    unfolding l_def by (rule comments_lines)
  have "parse_config_line (([] @ CHR ''#'' # '' per-user time limits for login sessions'') @ [NL])
        = Inl OutOfBounds"
    by (rule comment_line_out_of_bounds) (simp_all add: NUL_def)
  then have p: "parse_config_line l = Inl OutOfBounds"
    unfolding l_def by (simp add: NL_def)
  have r: "read_config (l @ rest) [] = Inl OutOfBounds"
    by (subst read_config.simps) (simp add: fgets_complete [OF cl] p)
  have "fs comments_world ''data/only_comments'' = Some (Regular (l @ rest))"
    unfolding comments_world_def sample_world_def l_def rest_def by simp
  with r show ?thesis
    unfolding parse_config_file_def by simp
qed

text \<open>Where the checked functions return, the functions that read the byte in front of
  the buffer return the same.\<close>

lemma eat_trailing_mem_agrees:
  "eat_trailing line len = Inr r \<Longrightarrow> eat_trailing_mem stray line len = Inr r"
proof (induction line len rule: eat_trailing.induct)
  case (1 line len)
  from "1.prems" obtain c where c: "rd line (int len - 1) = Some c"
    by (subst (asm) eat_trailing.simps) (auto split: option.splits)
  then have len: "len \<noteq> 0"
    by (auto simp: rd_def split: if_splits)
  show ?case
  proof (cases "isspace c")
    case True
    with "1.prems" c have "eat_trailing (line[len - 1 := NUL]) (len - 1) = Inr r"
      by (subst (asm) eat_trailing.simps) simp
    then have "eat_trailing_mem stray (line[len - 1 := NUL]) (len - 1) = Inr r"
      using c True by (rule "1.IH" [rotated 2])
    with c True len show ?thesis
      by (subst eat_trailing_mem.simps) simp
  next
    case False
    with "1.prems" c have "r = (line, len)"
      by (subst (asm) eat_trailing.simps) simp
    with c False len show ?thesis
      by (subst eat_trailing_mem.simps) simp
  qed
qed

lemma parse_config_line_mem_agrees:
  assumes "parse_config_line l = Inr r"
  shows "parse_config_line_mem stray l = Inr r"
proof -
  from assms obtain c where c: "rd (l @ [NUL]) (int (strlen (l @ [NUL])) - 1) = Some c"
    unfolding parse_config_line_def Let_def by (auto split: option.splits)
  then have len: "strlen (l @ [NUL]) \<noteq> 0"
    by (auto simp: rd_def split: if_splits)
  show ?thesis
  proof (cases "c = NL")
    case False
    with assms c len show ?thesis
      unfolding parse_config_line_def parse_config_line_mem_def Let_def by simp
  next
    case True
    let ?len = "strlen (l @ [NUL]) - 1"
    let ?line1 = "(l @ [NUL])[?len := NUL]"
    let ?line = "case strchr ?line1 (CHR ''#'') of None \<Rightarrow> ?line1 | Some k \<Rightarrow> ?line1[k := NUL]"
    let ?n = "case strchr ?line1 (CHR ''#'') of None \<Rightarrow> ?len | Some k \<Rightarrow> k"
    from assms c True obtain e where e: "eat_trailing ?line ?n = Inr e"
      unfolding parse_config_line_def Let_def by (auto split: sum.splits)
    then have "eat_trailing_mem stray ?line ?n = Inr e"
      by (rule eat_trailing_mem_agrees)
    with assms c True len e show ?thesis
      unfolding parse_config_line_def parse_config_line_mem_def Let_def by simp
  qed
qed

lemma fgets_shorter:
  assumes "fgets 1024 s = Some (line, rest)"
  shows "length rest < length s"
  using assms by (auto simp: fgets_def Let_def split: if_splits)

lemma read_config_mem_agrees:
  "read_config s acc = Inr r \<Longrightarrow> read_config_mem stack n s acc = Inr r"
proof (induction "length s" arbitrary: s acc n rule: less_induct)
  case less
  show ?case
  proof (cases "fgets 1024 s")
    case None
    with less.prems show ?thesis
      by (subst read_config_mem.simps, subst (asm) read_config.simps) simp
  next
    case (Some lr)
    obtain line rest where lr: "lr = (line, rest)" by (cases lr)
    have shorter: "length rest < length s"
      using Some lr by (intro fgets_shorter) simp
    from less.prems Some lr obtain ret user limit
      where p: "parse_config_line line = Inr (ret, user, limit)"
      by (subst (asm) read_config.simps) (auto split: sum.splits)
    then have pm: "parse_config_line_mem (stack n) line = Inr (ret, user, limit)"
      by (rule parse_config_line_mem_agrees)
    show ?thesis
    proof (cases "ret = PAM_SUCCESS")
      case False
      with less.prems Some lr p pm show ?thesis
        by (subst read_config_mem.simps, subst (asm) read_config.simps) simp
    next
      case True
      define acc' where
        "acc' = (case (user, limit) of (Some u, Some v) \<Rightarrow> acc @ [(u, v)] | _ \<Rightarrow> acc)"
      from less.prems Some lr p True have "read_config rest acc' = Inr r"
        by (subst (asm) read_config.simps) (auto simp: acc'_def split: option.splits)
      then have "read_config_mem stack (Suc n) rest acc' = Inr r"
        by (rule less.hyps [OF shorter])
      with Some lr pm True show ?thesis
        by (subst read_config_mem.simps) (auto simp: acc'_def split: option.splits)
    qed
  qed
qed

lemma parse_config_file_mem_agrees:
  assumes "parse_config_file w path = Inr r"
  shows "parse_config_file_mem stack w path = Inr r"
proof (cases "\<exists>content. fs w path = Some (Regular content)")
  case False
  with assms show ?thesis
    unfolding parse_config_file_def parse_config_file_mem_def
    by (auto split: option.splits node.splits)
next
  case True
  then obtain content where f: "fs w path = Some (Regular content)" by blast
  with assms obtain x where x: "read_config content [] = Inr x"
    unfolding parse_config_file_def by (auto split: sum.splits)
  then have "read_config_mem stack 0 content [] = Inr x"
    by (rule read_config_mem_agrees)
  with assms f x show ?thesis
    unfolding parse_config_file_def parse_config_file_mem_def by simp
qed

lemma pam_sm_acct_mgmt_mem_agrees:
  assumes "pam_sm_acct_mgmt c h argv w = Inr r"
  shows "pam_sm_acct_mgmt_mem stack c h argv w = Inr r"
proof (cases "\<exists>po sp u. acct_args argv None None = Some (po, sp)
                \<and> pam_get_item h = (PAM_SUCCESS, Some u)")
  case False
  with assms show ?thesis
    unfolding pam_sm_acct_mgmt_def pam_sm_acct_mgmt_mem_def Let_def
    by (auto split: option.splits prod.splits)
next
  case True
  then obtain po sp u where a: "acct_args argv None None = Some (po, sp)"
    and u: "pam_get_item h = (PAM_SUCCESS, Some u)" by blast
  let ?path = "case po of None \<Rightarrow> DEFAULT_CONFIG_PATH | Some p \<Rightarrow> p"
  from assms a u obtain x where x: "parse_config_file w ?path = Inr x"
    unfolding pam_sm_acct_mgmt_def Let_def by (auto split: sum.splits)
  then have "parse_config_file_mem stack w ?path = Inr x"
    by (rule parse_config_file_mem_agrees)
  with assms a u x show ?thesis
    unfolding pam_sm_acct_mgmt_def pam_sm_acct_mgmt_mem_def Let_def by simp
qed

section \<open>The admission decision\<close>

text \<open>
  Claim C1, as amended. Take an Admission Check whose arguments are recognised, whose
  user is known, whose limits file yields a limit text for the user that the codec
  parses to \<open>limit\<close>, and whose read of the state file succeeds with \<open>used\<close>. If
  \<open>limit \<le> used\<close> it returns \<open>PAM_PERM_DENIED\<close>, the handle is untouched and the
  environment is the one the read left. Otherwise the remaining time is
  \<open>limit - used\<close>, a subtraction that does not wrap; when the codec formats it and the
  per-session store accepts the value, the text is stored under
  \<^verbatim>\<open>systemd.runtime_max_sec\<close> and the result is \<open>PAM_SUCCESS\<close>; when the codec returns
  no text or the store rejects the value, the result is \<open>PAM_PERM_DENIED\<close> and nothing is
  stored.
\<close>

theorem admission_decision:
  assumes args: "acct_args argv None None = Some (po, sp)"
    and user: "pam_get_item h = (PAM_SUCCESS, Some u)"
    and cfg: "parse_config_file w (case po of None \<Rightarrow> DEFAULT_CONFIG_PATH | Some p \<Rightarrow> p)
                = Inr (PAM_SUCCESS, tbl)"
    and sel: "scan_table tbl u None = Some txt"
    and lim: "parse_time c txt = Some limit"
    and led: "get_used_time_for_user w (case sp of None \<Rightarrow> DEFAULT_STATE_PATH | Some p \<Rightarrow> p) u
                = ((PAM_SUCCESS, used), w1)"
  shows "pam_sm_acct_mgmt c h argv w =
           (if limit \<le> used then Inr (PAM_PERM_DENIED, h, w1)
            else case format_timespan c (limit - used) of
                   None \<Rightarrow> Inr (PAM_PERM_DENIED, h, w1)
                 | Some text \<Rightarrow>
                     if set_data_ret h = PAM_SUCCESS
                     then Inr (PAM_SUCCESS,
                               h\<lparr>pam_data := (pam_data h)(''systemd.runtime_max_sec'' \<mapsto> DText text)\<rparr>,
                               w1)
                     else Inr (PAM_PERM_DENIED, h, w1))
       \<and> (\<not> limit \<le> used \<longrightarrow> unat (limit - used) = unat limit - unat used)"
proof -
  have "pam_sm_acct_mgmt c h argv w =
          enforce_limit c h w (case sp of None \<Rightarrow> DEFAULT_STATE_PATH | Some p \<Rightarrow> p) u txt"
    using args user cfg sel by (rule acct_mgmt_to_table)
  moreover have "\<not> limit \<le> used \<longrightarrow> unat (limit - used) = unat limit - unat used"
    by (simp add: unat_sub)
  ultimately show ?thesis
    using lim led
    by (simp add: enforce_limit_def pam_set_data_def Let_def split: option.splits)
qed

text \<open>Scenario C: twelve hours allowed, five used, seven hours published.\<close>

theorem admission_decision_witness:
  "pam_sm_acct_mgmt sample_codec (sample_handle Map.empty PAM_SUCCESS)
     [''path=data/limits'', ''statepath=data/state''] scenario_world
   = Inr (PAM_SUCCESS,
          sample_handle Map.empty PAM_SUCCESS
            \<lparr>pam_data := [''systemd.runtime_max_sec'' \<mapsto> DText ''7h'']\<rparr>,
          scenario_world)
   \<and> unat (43200000000 - 18000000000 :: usec_t) = unat (43200000000 :: usec_t) - unat (18000000000 :: usec_t)"
proof -
  have cfg: "parse_config_file scenario_world
               (case Some ''data/limits'' of None \<Rightarrow> DEFAULT_CONFIG_PATH | Some p \<Rightarrow> p)
             = Inr (PAM_SUCCESS, [(''ted'', ''12h'')])"
    by (simp add: scenario_config)
  have led: "get_used_time_for_user scenario_world
               (case Some ''data/state'' of None \<Rightarrow> DEFAULT_STATE_PATH | Some p \<Rightarrow> p) ''ted''
             = ((PAM_SUCCESS, 18000000000), scenario_world)"
    by (simp add: scenario_ledger)
  from admission_decision [OF sample_args sample_user cfg sample_select sample_limit led]
  show ?thesis
    by (simp add: sample_remaining) (simp add: sample_handle_def)
qed

text \<open>
  The claim as written promises \<open>PAM_SUCCESS\<close> whenever the limit exceeds the usage. In
  Scenario C with a store that answers \<open>PAM_BUF_ERR\<close> to \<^verbatim>\<open>pam_set_data\<close>, the limit is
  configured and parsed, the read succeeds, twelve hours exceed five, and the check
  denies.
\<close>

theorem admission_store_rejects:
  "parse_config_file scenario_world ''data/limits'' = Inr (PAM_SUCCESS, [(''ted'', ''12h'')])
   \<and> parse_time sample_codec ''12h'' = Some 43200000000
   \<and> get_used_time_for_user scenario_world ''data/state'' ''ted''
       = ((PAM_SUCCESS, 18000000000), scenario_world)
   \<and> \<not> (43200000000 :: usec_t) \<le> 18000000000
   \<and> pam_sm_acct_mgmt sample_codec (sample_handle Map.empty PAM_BUF_ERR)
        [''path=data/limits'', ''statepath=data/state''] scenario_world
      = Inr (PAM_PERM_DENIED, sample_handle Map.empty PAM_BUF_ERR, scenario_world)"
proof -
  have cfg: "parse_config_file scenario_world
               (case Some ''data/limits'' of None \<Rightarrow> DEFAULT_CONFIG_PATH | Some p \<Rightarrow> p)
             = Inr (PAM_SUCCESS, [(''ted'', ''12h'')])"
    by (simp add: scenario_config)
  have "enforce_limit sample_codec (sample_handle Map.empty PAM_BUF_ERR) scenario_world
          ''data/state'' ''ted'' ''12h''
        = Inr (PAM_PERM_DENIED, sample_handle Map.empty PAM_BUF_ERR, scenario_world)"
    by (simp add: enforce_limit_def sample_limit scenario_ledger sample_remaining
          pam_set_data_def Let_def) (simp add: sample_handle_def)
  with acct_mgmt_to_table [OF sample_args sample_user cfg sample_select]
  show ?thesis
    by (simp add: scenario_config sample_limit scenario_ledger)
qed

section \<open>Accumulated usage\<close>

text \<open>
  Claim C2. When Session Close gets as far as adding up (a limit was published, the
  arguments are recognised, the start time is there and not in the future, the user is
  known, the read of the state file succeeds with \<open>used_time\<close>), the value it hands to
  \<^verbatim>\<open>set_used_time_for_user\<close> is \<open>used_time + elapsed_time\<close> as natural numbers when that is
  at most \<open>2^64 - 1\<close>, and \<open>2^64 - 1\<close>, the value of \<open>USEC_INFINITY\<close>, otherwise: the sum
  never wraps. When the write succeeds, the state file holds a record of the user with
  that counter.
\<close>

theorem accumulated_usage_saturates:
  assumes published: "pam_data h ''systemd.runtime_max_sec'' = Some d" "d \<noteq> DNull"
    and args: "close_args argv None = Some sp"
    and start: "pam_data h ''timelimit.session_start'' = Some (DTime start_time)"
               "\<not> now w <s start_time"
    and user: "pam_get_item h = (PAM_SUCCESS, Some u)"
    and used: "get_used_time_for_user w (case sp of None \<Rightarrow> DEFAULT_STATE_PATH | Some p \<Rightarrow> p) u
                 = ((PAM_SUCCESS, used_time), w1)"
  shows "pam_sm_close_session h argv w =
           (case set_used_time_for_user w1 (case sp of None \<Rightarrow> DEFAULT_STATE_PATH | Some p \<Rightarrow> p) u
                   (add_used_time used_time ((now w - start_time) * USEC_PER_SEC)) of
              (retval, w2) \<Rightarrow>
                Inr (if retval = PAM_SUCCESS then PAM_SUCCESS else PAM_SESSION_ERR, w2))
       \<and> (\<forall>w2. set_used_time_for_user w1 (case sp of None \<Rightarrow> DEFAULT_STATE_PATH | Some p \<Rightarrow> p) u
                   (add_used_time used_time ((now w - start_time) * USEC_PER_SEC))
                 = (PAM_SUCCESS, w2) \<longrightarrow>
              (\<exists>front slot back.
                 fs w2 (case sp of None \<Rightarrow> DEFAULT_STATE_PATH | Some p \<Rightarrow> p)
                   = Some (Regular (front @ slot @ back))
                 \<and> length slot = RECSZ
                 \<and> strncmp_eq u slot (NAME_MAX + 1)
                 \<and> slot_used slot
                     = add_used_time used_time ((now w - start_time) * USEC_PER_SEC)))
       \<and> unat (add_used_time used_time ((now w - start_time) * USEC_PER_SEC))
           = min (unat used_time + unat ((now w - start_time) * USEC_PER_SEC)) (2 ^ 64 - 1)
       \<and> unat USEC_INFINITY = 2 ^ 64 - 1"
proof -
  let ?sp = "case sp of None \<Rightarrow> DEFAULT_STATE_PATH | Some p \<Rightarrow> p"
  let ?acc = "add_used_time used_time ((now w - start_time) * USEC_PER_SEC)"
  have "pam_sm_close_session h argv w =
           (case set_used_time_for_user w1 ?sp u ?acc of
              (retval, w2) \<Rightarrow>
                Inr (if retval = PAM_SUCCESS then PAM_SUCCESS else PAM_SESSION_ERR, w2))"
    using assms
    by (simp add: pam_sm_close_session_def pam_get_data_def Let_def split: prod.splits)
  moreover have "\<exists>front slot back.
                 fs w2 ?sp = Some (Regular (front @ slot @ back))
                 \<and> length slot = RECSZ \<and> strncmp_eq u slot (NAME_MAX + 1)
                 \<and> slot_used slot = ?acc"
    if "set_used_time_for_user w1 ?sp u ?acc = (PAM_SUCCESS, w2)" for w2
    using set_writes_record [OF that] match_make_record [of u "time_today w1" ?acc]
    by (metis length_make_record slot_used_make_record)
  ultimately show ?thesis
    by (simp add: add_used_time_sat unat_USEC_INFINITY)
qed

text \<open>A session of one hour closed on top of five hours used: six hours on record.\<close>

theorem accumulated_usage_saturates_witness:
  "pam_sm_close_session
     (sample_handle [''systemd.runtime_max_sec'' \<mapsto> DText ''7h'',
                     ''timelimit.session_start'' \<mapsto> DTime 1699996400] PAM_SUCCESS)
     [''statepath=data/state''] scenario_world
   = Inr (PAM_SUCCESS,
          scenario_world\<lparr>fs := (fs scenario_world)(''data/state'' \<mapsto>
             Regular (state_header @ make_record ''ted'' 1699920000 21600000000))\<rparr>)
   \<and> unat (add_used_time 18000000000 ((1700000000 - 1699996400) * USEC_PER_SEC))
       = min (unat (18000000000 :: usec_t) + unat ((1700000000 - 1699996400) * USEC_PER_SEC))
             (2 ^ 64 - 1)"
proof -
  let ?h = "sample_handle [''systemd.runtime_max_sec'' \<mapsto> DText ''7h'',
                     ''timelimit.session_start'' \<mapsto> DTime 1699996400] PAM_SUCCESS"
  have d: "pam_data ?h ''systemd.runtime_max_sec'' = Some (DText ''7h'')" "DText ''7h'' \<noteq> DNull"
    "pam_data ?h ''timelimit.session_start'' = Some (DTime 1699996400)"
    by (simp_all add: sample_handle_def)
  have n: "now scenario_world = 1700000000" "\<not> now scenario_world <s 1699996400"
    by (simp_all add: scenario_world_def sample_world_def word_sless_alt)
  have led: "get_used_time_for_user scenario_world
               (case Some ''data/state'' of None \<Rightarrow> DEFAULT_STATE_PATH | Some p \<Rightarrow> p) ''ted''
             = ((PAM_SUCCESS, 18000000000), scenario_world)"
    by (simp add: scenario_ledger)
  have f: "fs scenario_world ''data/state'' =
          Some (Regular (state_header @ concat [] @ make_record ''ted'' 1699920000 18000000000 @ []))"
    by (simp add: scenario_world_def sample_world_def)
  have env: "can_open scenario_world" "write_ok scenario_world"
    "time_today scenario_world = 1699920000"
    by (simp_all add: scenario_world_def can_open_sample today_sample) (simp add: sample_world_def)
  from set_found [OF env(1,2) f _ length_make_record match_make_record, of 21600000000]
  have wr: "set_used_time_for_user scenario_world ''data/state'' ''ted'' 21600000000 =
          (PAM_SUCCESS, scenario_world\<lparr>fs := (fs scenario_world)(''data/state'' \<mapsto>
             Regular (state_header @ make_record ''ted'' 1699920000 21600000000))\<rparr>)"
    by (simp add: env(3))
  from accumulated_usage_saturates [OF d(1,2) sample_close_args d(3) n(2) sample_user led]
  show ?thesis
    by (simp add: n(1) sample_sum wr)
qed

section \<open>The last entry of the limits file wins\<close>

text \<open>
  Claim C3. Let the limits file be a sequence of lines, each read whole and parsed with
  \<open>PAM_SUCCESS\<close>, let one of them give the limit text \<open>limit\<close> for a name equal to the
  user's, and let no later line give an entry for the user. Then, whatever entries the
  earlier lines give for the user, the Admission Check goes on with \<open>limit\<close>: the loop
  over the table does not stop at the first match.
\<close>

theorem last_match_wins:
  assumes args: "acct_args argv None None = Some (po, sp)"
    and user: "pam_get_item h = (PAM_SUCCESS, Some u)"
    and cfile: "fs w (case po of None \<Rightarrow> DEFAULT_CONFIG_PATH | Some p \<Rightarrow> p)
                 = Some (Regular (concat (before @ l # after)))"
    and ok: "\<forall>x \<in> set (before @ l # after). complete_line x \<and>
               (\<exists>user limit. parse_config_line x = Inr (PAM_SUCCESS, user, limit))"
    and hit: "parse_config_line l = Inr (PAM_SUCCESS, Some name, Some limit)"
    and same: "strcmp_eq name u"
    and later: "\<forall>(n, v) \<in> set (concat (map line_entries after)). \<not> strcmp_eq n u"
  shows "pam_sm_acct_mgmt c h argv w =
           enforce_limit c h w (case sp of None \<Rightarrow> DEFAULT_STATE_PATH | Some p \<Rightarrow> p) u limit"
proof -
  let ?tbl = "concat (map line_entries before) @ (name, limit) # concat (map line_entries after)"
  have "read_config (concat (before @ l # after)) [] = Inr (PAM_SUCCESS, ?tbl)"
    using read_config_lines [OF ok, of "[]"] hit by (simp add: line_entries_def)
  then have "parse_config_file w (case po of None \<Rightarrow> DEFAULT_CONFIG_PATH | Some p \<Rightarrow> p)
               = Inr (PAM_SUCCESS, ?tbl)"
    using cfile by (simp add: parse_config_file_def)
  moreover have "scan_table ?tbl u None = Some limit"
    using same later by (rule scan_table_last)
  ultimately show ?thesis
    using args user by (rule acct_mgmt_to_table [rotated 2])
qed

text \<open>Five, nine and twelve hours for \<open>ted\<close>, in this order: twelve hours apply.\<close>

theorem last_match_wins_witness:
  "pam_sm_acct_mgmt sample_codec (sample_handle Map.empty PAM_SUCCESS)
     [''path=data/limits'', ''statepath=data/state''] duplicates_world
   = enforce_limit sample_codec (sample_handle Map.empty PAM_SUCCESS) duplicates_world
       ''data/state'' ''ted'' ''12h''"
proof -
  have f: "fs duplicates_world
             (case Some ''data/limits'' of None \<Rightarrow> DEFAULT_CONFIG_PATH | Some p \<Rightarrow> p)
           = Some (Regular (concat ([''ted 5h\<newline>'', ''ted 9h\<newline>'', ''bob 1h\<newline>'']
                                     @ ''ted 12h\<newline>'' # [''ann 2h\<newline>''])))"
    by (simp add: duplicates_world_def sample_world_def)
  have ok: "\<forall>x \<in> set ([''ted 5h\<newline>'', ''ted 9h\<newline>'', ''bob 1h\<newline>'']
                         @ ''ted 12h\<newline>'' # [''ann 2h\<newline>'']).
              complete_line x \<and> (\<exists>user limit. parse_config_line x = Inr (PAM_SUCCESS, user, limit))"
    using sample_complete sample_lines by simp
  have later: "\<forall>(n, v) \<in> set (concat (map line_entries [''ann 2h\<newline>''])). \<not> strcmp_eq n ''ted''"
    by (simp add: line_entries_def sample_lines strcmp_eq_def c_str_def NUL_def)
  have same: "strcmp_eq ''ted'' ''ted''"
    by (simp add: strcmp_eq_def)
  from last_match_wins [OF sample_args sample_user f ok sample_lines(4) same later]
  show ?thesis by simp
qed

section \<open>Records of an earlier day\<close>

text \<open>
  Claim C4. Let the state file hold, after its header and after whole records of other
  users, a whole record whose name field matches the user and whose day is before
  \<^verbatim>\<open>time_today()\<close>. Then \<^verbatim>\<open>get_used_time_for_user\<close> reports zero microseconds whatever the
  counter of the record is, and it leaves the environment, the state file included,
  as it was; when the file can be opened and locked the return code is \<open>PAM_SUCCESS\<close>.
\<close>

theorem stale_record_reads_zero:
  assumes cfile: "fs w p = Some (Regular (state_header @ concat pre @ slot @ rest))"
    and pre: "\<forall>s \<in> set pre. length s = RECSZ \<and> \<not> strncmp_eq u s (NAME_MAX + 1)"
    and slot: "length slot = RECSZ" "strncmp_eq u slot (NAME_MAX + 1)"
    and stale: "slot_day slot <s time_today w"
  shows "snd (fst (get_used_time_for_user w p u)) = 0
       \<and> snd (get_used_time_for_user w p u) = w
       \<and> (can_open w \<longrightarrow> get_used_time_for_user w p u = ((PAM_SUCCESS, 0), w))"
proof -
  have w: "snd (open_state_path w p) = w"
    using cfile by (rule open_keeps_existing)
  have scan: "get_scan u (time_today w) (state_header @ concat pre @ slot @ rest) 12
                (replicate RECSZ NUL) 0 = 0"
    using get_scan_found [OF pre slot] stale by simp
  have "snd (fst (get_used_time_for_user w p u)) = 0"
  proof (cases "open_state_path w p")
    case (Pair fdo w1)
    show ?thesis
    proof (cases fdo)
      case None
      with Pair show ?thesis by (simp add: get_used_time_for_user_def)
    next
      case (Some fd)
      with Pair cfile have "fd = (state_header @ concat pre @ slot @ rest, 12)" "w1 = w"
        by (auto simp: open_state_path_def split: if_splits)
      with Pair Some scan show ?thesis by (simp add: get_used_time_for_user_def)
    qed
  qed
  moreover have "snd (get_used_time_for_user w p u) = w"
    using w by (auto simp: get_used_time_for_user_def split: prod.splits option.splits)
  moreover have "can_open w \<longrightarrow> get_used_time_for_user w p u = ((PAM_SUCCESS, 0), w)"
    using get_found [OF _ cfile pre slot] stale by simp
  ultimately show ?thesis by simp
qed

text \<open>The record of the test \<^verbatim>\<open>state_file_ignore_stale_entry\<close>: five hours, day 0.\<close>

theorem stale_record_reads_zero_witness:
  "get_used_time_for_user
     (sample_world [''data/state'' \<mapsto> Regular (state_header @ make_record ''ted'' 0 18000000000)])
     ''data/state'' ''ted''
   = ((PAM_SUCCESS, 0),
      sample_world [''data/state'' \<mapsto> Regular (state_header @ make_record ''ted'' 0 18000000000)])"
  using stale_record_reads_zero
    [of "sample_world [''data/state'' \<mapsto> Regular (state_header @ make_record ''ted'' 0 18000000000)]"
        "''data/state''" "[]" "make_record ''ted'' 0 18000000000" "[]" "''ted''"]
    match_make_record [of "''ted''" 0 18000000000]
  by (simp add: today_sample can_open_sample word_sless_alt) (simp add: sample_world_def)

section \<open>Reading back what was written\<close>

text \<open>
  Claim C5. The claim is that on every state of the ledger a \<open>get\<close> right after a
  \<open>set\<close> of \<open>U\<close>, on the same day, returns \<open>U\<close>. It holds when the records after the
  header are whole (lemma \<open>set_then_get\<close>). On the state file of the test
  \<^verbatim>\<open>state_file_no_crash_on_truncation\<close>, cut off at 50 bytes, it does not:
  \<^verbatim>\<open>set_used_time_for_user\<close> finds no record, writes the new one behind the 38 bytes that
  are left of the old one and returns \<open>PAM_SUCCESS\<close>; \<^verbatim>\<open>get_used_time_for_user\<close> then reads
  272 bytes that straddle both, finds the name \<open>ted\<close> at their start and padding where
  the day should be, and reports zero instead of the hour that was set.
\<close>

theorem set_then_get_truncated:
  "fst (set_used_time_for_user truncated_world ''data/state'' ''ted'' 3600000000) = PAM_SUCCESS
   \<and> fst (get_used_time_for_user
            (snd (set_used_time_for_user truncated_world ''data/state'' ''ted'' 3600000000))
            ''data/state'' ''ted'') = (PAM_SUCCESS, 0)
   \<and> (3600000000 :: usec_t) \<noteq> 0"
proof -
  define tail where "tail = ''ted'' @ replicate 35 NUL"
  define r where "r = make_record ''ted'' 1699920000 3600000000"
  define slot where "slot = tail @ take 234 r"
  define w1 where "w1 = truncated_world\<lparr>fs := (fs truncated_world)
               (''data/state'' \<mapsto> Regular (state_header @ concat [] @ tail @ r))\<rparr>"
  have f: "fs truncated_world ''data/state'' = Some (Regular (state_header @ concat [] @ tail))"
    unfolding truncated_world_def truncated_tail tail_def by (simp add: sample_world_def)
  have env: "can_open truncated_world" "write_ok truncated_world"
    "time_today truncated_world = 1699920000"
    by (simp_all add: truncated_world_def can_open_sample today_sample)
       (simp add: sample_world_def)
  have "length tail < RECSZ"
    by (simp add: tail_def RECSZ_def NAME_MAX_def)
  from set_not_found [OF env(1,2) f _ this, of "''ted''" 3600000000]
  have s: "set_used_time_for_user truncated_world ''data/state'' ''ted'' 3600000000 =
             (PAM_SUCCESS, w1)"
    by (simp add: env(3) w1_def r_def)
  have slot: "length slot = RECSZ" "strncmp_eq ''ted'' slot (NAME_MAX + 1)" "slot_day slot = 0"
    unfolding slot_def tail_def r_def
    by (rule straddling_length straddling_name straddling_day)+
  have f1: "fs w1 ''data/state'' =
              Some (Regular (state_header @ concat [] @ slot @ drop 234 r))"
    by (simp add: w1_def slot_def)
  have o1: "can_open w1" "time_today w1 = 1699920000"
    using env(1,3) by (simp_all add: can_open_def w1_def)
  from get_found [OF o1(1) f1 _ slot(1,2)]
  have "get_used_time_for_user w1 ''data/state'' ''ted'' = ((PAM_SUCCESS, 0), w1)"
    by (simp add: slot(3) o1(2) word_sless_alt)
  with s show ?thesis by simp
qed

section \<open>Unknown module arguments\<close>

text \<open>
  Claim C6, as amended. When the argument list holds an argument that starts with
  neither \<^verbatim>\<open>path=\<close> nor \<^verbatim>\<open>statepath=\<close>, the Admission Check returns \<open>PAM_PERM_DENIED\<close>
  with the handle and the environment untouched, and Session Close returns
  \<open>PAM_SYSTEM_ERR\<close> with the environment untouched provided a remaining-time value was
  published for the session.
\<close>

theorem unknown_option:
  assumes "a \<in> set argv"
    and "\<not> strncmp_eq a ''path='' (strlen ''path='')"
    and "\<not> strncmp_eq a ''statepath='' (strlen ''statepath='')"
  shows "pam_sm_acct_mgmt c h argv w = Inr (PAM_PERM_DENIED, h, w)
       \<and> (\<forall>d. pam_data h ''systemd.runtime_max_sec'' = Some d \<and> d \<noteq> DNull \<longrightarrow>
            pam_sm_close_session h argv w = Inr (PAM_SYSTEM_ERR, w))"
proof -
  from assms have known: "\<not> strncmp_eq a ''path='' 5" "\<not> strncmp_eq a ''statepath='' 10"
    by simp_all
  from acct_args_unknown [OF assms(1) known] close_args_unknown [OF assms(1) known(2)]
  show ?thesis
    by (auto simp: pam_sm_acct_mgmt_def pam_sm_close_session_def pam_get_data_def)
qed

theorem unknown_option_witness:
  "pam_sm_acct_mgmt sample_codec
     (sample_handle [''systemd.runtime_max_sec'' \<mapsto> DText ''7h''] PAM_SUCCESS)
     [''statepath=data/state'', ''something_broken''] scenario_world
   = Inr (PAM_PERM_DENIED,
          sample_handle [''systemd.runtime_max_sec'' \<mapsto> DText ''7h''] PAM_SUCCESS,
          scenario_world)
   \<and> pam_sm_close_session
       (sample_handle [''systemd.runtime_max_sec'' \<mapsto> DText ''7h''] PAM_SUCCESS)
       [''statepath=data/state'', ''something_broken''] scenario_world
     = Inr (PAM_SYSTEM_ERR, scenario_world)"
proof -
  have a: "''something_broken'' \<in> set [''statepath=data/state'', ''something_broken'']"
    by simp
  have b: "\<not> strncmp_eq ''something_broken'' ''path='' (strlen ''path='')"
    "\<not> strncmp_eq ''something_broken'' ''statepath='' (strlen ''statepath='')"
    by (simp_all add: strncmp_eq_def c_str_def NUL_def)
  from unknown_option [OF a b, of sample_codec
      "sample_handle [''systemd.runtime_max_sec'' \<mapsto> DText ''7h''] PAM_SUCCESS" scenario_world]
  show ?thesis
    by (simp add: sample_handle_def)
qed

text \<open>
  The claim as written promises a System error from both entry points. With the
  argument of the test \<^verbatim>\<open>invalid_module_argument\<close> the Admission Check returns
  \<open>PAM_PERM_DENIED\<close>, as that test asserts, and Session Close without a published limit
  returns \<open>PAM_SUCCESS\<close> before it looks at its arguments.
\<close>

theorem unknown_option_not_system_error:
  "pam_sm_acct_mgmt sample_codec (sample_handle Map.empty PAM_SUCCESS)
     [''something_broken''] (sample_world Map.empty)
   = Inr (PAM_PERM_DENIED, sample_handle Map.empty PAM_SUCCESS, sample_world Map.empty)
   \<and> pam_sm_close_session (sample_handle Map.empty PAM_SUCCESS)
       [''something_broken''] (sample_world Map.empty)
     = Inr (PAM_SUCCESS, sample_world Map.empty)
   \<and> PAM_PERM_DENIED \<noteq> PAM_SYSTEM_ERR \<and> PAM_SUCCESS \<noteq> PAM_SYSTEM_ERR"
proof -
  have "acct_args [''something_broken''] None None = None"
    by code_simp
  then show ?thesis
    by (simp add: pam_sm_acct_mgmt_def pam_sm_close_session_def pam_get_data_def sample_handle_def)
qed

section \<open>The day written into a record\<close>

text \<open>
  Claim C7. When \<^verbatim>\<open>localtime_r\<close> decomposes the current time into \<open>lt\<close> and
  \<^verbatim>\<open>set_used_time_for_user\<close> succeeds, the state file holds the record built from the
  user, the counter and the day \<^verbatim>\<open>timegm\<close> of \<open>lt\<close> with hours, minutes and seconds set to
  zero: the local calendar date read as universal time, \<open>86400\<close> times the number of
  the date. The day is read back from the bytes of the record alone, and a later change
  of the time zone or of the clock leaves the file as it is. In any later environment,
  whatever its time zone, in which the local calendar date is the same, \<^verbatim>\<open>time_today()\<close>
  is again the day on record.
\<close>

theorem day_marker_is_local_date:
  assumes lt: "localtime_r w (now w) = Some lt"
    and wr: "set_used_time_for_user w p u v = (PAM_SUCCESS, w')"
  shows "(\<exists>front slot back. fs w' p = Some (Regular (front @ slot @ back))
            \<and> slot = make_record u (timegm (lt\<lparr>tm_sec := 0, tm_min := 0, tm_hour := 0\<rparr>)) v
            \<and> slot_day slot = timegm (lt\<lparr>tm_sec := 0, tm_min := 0, tm_hour := 0\<rparr>)
            \<and> slot_day slot = word_of_int (tm_date lt * 86400))
       \<and> (\<forall>zone t. fs (w'\<lparr>localtime_r := zone, now := t\<rparr>) p = fs w' p)
       \<and> (\<forall>w2 lt2. localtime_r w2 (now w2) = Some lt2 \<and> tm_date lt2 = tm_date lt \<longrightarrow>
             time_today w2 = timegm (lt\<lparr>tm_sec := 0, tm_min := 0, tm_hour := 0\<rparr>))"
proof -
  have today: "time_today w = timegm (lt\<lparr>tm_sec := 0, tm_min := 0, tm_hour := 0\<rparr>)"
    using lt by (simp add: time_today_def)
  have date: "timegm (lt\<lparr>tm_sec := 0, tm_min := 0, tm_hour := 0\<rparr>) = word_of_int (tm_date lt * 86400)"
    by (simp add: timegm_def)
  have "time_today w2 = timegm (lt\<lparr>tm_sec := 0, tm_min := 0, tm_hour := 0\<rparr>)"
    if "localtime_r w2 (now w2) = Some lt2" "tm_date lt2 = tm_date lt" for w2 lt2
    using that by (simp add: time_today_def timegm_def)
  with set_writes_record [OF wr] today date show ?thesis
    by auto
qed


text \<open>One hour east of Greenwich at 23:13:20 local time of day 19675; five hours west
  of Greenwich it is 17:13:20 of the same day, and the day boundary is the one on
  record.\<close>

theorem day_marker_is_local_date_witness:
  "(\<exists>front slot back.
      fs (snd (set_used_time_for_user (sample_world Map.empty) ''data/state'' ''ted'' 3600000000))
        ''data/state'' = Some (Regular (front @ slot @ back))
      \<and> slot = make_record ''ted'' 1699920000 3600000000
      \<and> slot_day slot = 1699920000)
   \<and> localtime_r (sample_world Map.empty) (now (sample_world Map.empty))
       = Some \<lparr>tm_sec = 20, tm_min = 13, tm_hour = 23, tm_date = 19675\<rparr>
   \<and> localtime_r (sample_world Map.empty\<lparr>localtime_r := zone_at (- 18000)\<rparr>)
        (now (sample_world Map.empty))
       = Some \<lparr>tm_sec = 20, tm_min = 13, tm_hour = 17, tm_date = 19675\<rparr>
   \<and> time_today (sample_world Map.empty\<lparr>localtime_r := zone_at (- 18000)\<rparr>) = 1699920000"
proof -
  let ?w = "sample_world Map.empty"
  let ?w2 = "?w\<lparr>localtime_r := zone_at (- 18000)\<rparr>"
  let ?lt = "\<lparr>tm_sec = 20, tm_min = 13, tm_hour = 23, tm_date = 19675\<rparr>"
  let ?lt2 = "\<lparr>tm_sec = 20, tm_min = 13, tm_hour = 17, tm_date = 19675\<rparr>"
  have lt: "localtime_r ?w (now ?w) = Some ?lt"
    by (simp add: sample_world_def zone_at_def)
  have lt2: "localtime_r ?w2 (now ?w2) = Some ?lt2"
    by (simp add: sample_world_def zone_at_def)
  have "fs ?w ''data/state'' = None" "write_ok ?w" "creat_ok ?w"
    by (simp_all add: sample_world_def)
  from set_created [OF can_open_sample this(2,3,1), of "''ted''" 3600000000]
  have wr: "set_used_time_for_user ?w ''data/state'' ''ted'' 3600000000 =
              (PAM_SUCCESS, snd (set_used_time_for_user ?w ''data/state'' ''ted'' 3600000000))"
    by simp
  have tg: "timegm (?lt\<lparr>tm_sec := 0, tm_min := 0, tm_hour := 0\<rparr>) = 1699920000"
    by (simp add: timegm_def)
  from day_marker_is_local_date [OF lt wr]
  have a: "\<exists>front slot back.
      fs (snd (set_used_time_for_user ?w ''data/state'' ''ted'' 3600000000)) ''data/state''
        = Some (Regular (front @ slot @ back))
      \<and> slot = make_record ''ted'' 1699920000 3600000000
      \<and> slot_day slot = 1699920000"
    and b: "\<forall>w2 lt2. localtime_r w2 (now w2) = Some lt2 \<and> tm_date lt2 = tm_date ?lt \<longrightarrow>
             time_today w2 = 1699920000"
    unfolding tg by blast+
  from b lt2 have "time_today ?w2 = 1699920000"
    by simp
  with a lt lt2 show ?thesis
    by (simp add: sample_world_def)
qed

section \<open>Session close without a published limit\<close>

text \<open>
  Claim C8. When the per-session store holds no remaining-time value under
  \<^verbatim>\<open>systemd.runtime_max_sec\<close> (nothing was stored, or a NULL pointer was), Session Close
  returns \<open>PAM_SUCCESS\<close> at once: whatever the arguments, the file system and the clock
  are, the environment comes back as it was, so the state file is neither created nor
  written, and nothing read from it has a part in the result.
\<close>

theorem close_session_without_limit:
  assumes "pam_data h ''systemd.runtime_max_sec'' = None
           \<or> pam_data h ''systemd.runtime_max_sec'' = Some DNull"
  shows "pam_sm_close_session h argv w = Inr (PAM_SUCCESS, w)"
  using assms by (auto simp: pam_sm_close_session_def pam_get_data_def)

theorem close_session_without_limit_witness:
  "pam_sm_close_session (sample_handle Map.empty PAM_SUCCESS) [''statepath=data/state'']
     (sample_world Map.empty) = Inr (PAM_SUCCESS, sample_world Map.empty)"
  using close_session_without_limit
    [of "sample_handle Map.empty PAM_SUCCESS" "[''statepath=data/state'']"
        "sample_world Map.empty"]
  by (simp add: sample_handle_def)


section \<open>No limits configured\<close>

text \<open>
  Claim C9. Take an Admission Check whose arguments are recognised and whose user is
  known. When no file is at the configured path, or when the reading loop goes through
  the file with \<open>PAM_SUCCESS\<close> and an empty table, \<^verbatim>\<open>parse_config_file\<close> returns
  \<open>PAM_IGNORE\<close>, and so does the check, with the handle and the environment untouched;
  the outcome is not the \<open>PAM_PERM_DENIED\<close> of a malformed file. The file is read with
  the byte in front of the line buffer as a parameter, \<open>stack\<close>: under the checked bounds
  the loop goes through the empty file only, and every blank line or comment is an
  out-of-bounds read (\<open>blank_line_out_of_bounds\<close>, \<open>comment_line_out_of_bounds\<close>). By \<open>read_config_mem_skipped\<close> the loop goes through
  every file of blank lines and comments when none of these bytes is white space. With
  no file at the path the check with the checked bounds returns \<open>PAM_IGNORE\<close> as well.
\<close>

theorem no_limits_is_ignore:
  assumes args: "acct_args argv None None = Some (po, sp)"
    and user: "pam_get_item h = (PAM_SUCCESS, Some u)"
    and cfg: "fs w (case po of None \<Rightarrow> DEFAULT_CONFIG_PATH | Some p \<Rightarrow> p) = None
              \<or> (\<exists>content. fs w (case po of None \<Rightarrow> DEFAULT_CONFIG_PATH | Some p \<Rightarrow> p)
                     = Some (Regular content)
                   \<and> read_config_mem stack 0 content [] = Inr (PAM_SUCCESS, []))"
  shows "parse_config_file_mem stack w (case po of None \<Rightarrow> DEFAULT_CONFIG_PATH | Some p \<Rightarrow> p)
           = Inr (PAM_IGNORE, [])
       \<and> pam_sm_acct_mgmt_mem stack c h argv w = Inr (PAM_IGNORE, h, w)
       \<and> outcome (pam_sm_acct_mgmt_mem stack c h argv w) \<noteq> Some PAM_PERM_DENIED
       \<and> (fs w (case po of None \<Rightarrow> DEFAULT_CONFIG_PATH | Some p \<Rightarrow> p) = None
            \<longrightarrow> pam_sm_acct_mgmt c h argv w = Inr (PAM_IGNORE, h, w))"
proof -
  have p: "parse_config_file_mem stack w (case po of None \<Rightarrow> DEFAULT_CONFIG_PATH | Some p \<Rightarrow> p)
           = Inr (PAM_IGNORE, [])"
    using cfg by (auto simp: parse_config_file_mem_def)
  then have m: "pam_sm_acct_mgmt_mem stack c h argv w = Inr (PAM_IGNORE, h, w)"
    using args user by (simp add: pam_sm_acct_mgmt_mem_def)
  have "pam_sm_acct_mgmt c h argv w = Inr (PAM_IGNORE, h, w)"
    if "fs w (case po of None \<Rightarrow> DEFAULT_CONFIG_PATH | Some p \<Rightarrow> p) = None"
    using that args user by (simp add: pam_sm_acct_mgmt_def parse_config_file_def)
  with p m show ?thesis
    by (simp add: outcome_def)
qed

text \<open>The path of the test \<^verbatim>\<open>no_config_file\<close>, and the file of the test
  \<^verbatim>\<open>config_only_comments\<close> with a NUL in front of the buffer.\<close>

theorem no_limits_is_ignore_witness:
  "pam_sm_acct_mgmt sample_codec (sample_handle Map.empty PAM_SUCCESS)
     [''path=data/non-existent''] (sample_world Map.empty)
   = Inr (PAM_IGNORE, sample_handle Map.empty PAM_SUCCESS, sample_world Map.empty)
   \<and> pam_sm_acct_mgmt_mem (\<lambda>n. NUL) sample_codec (sample_handle Map.empty PAM_SUCCESS)
       [''path=data/non-existent''] (sample_world Map.empty)
     = Inr (PAM_IGNORE, sample_handle Map.empty PAM_SUCCESS, sample_world Map.empty)
   \<and> parse_config_file_mem (\<lambda>n. NUL) comments_world ''data/only_comments''
     = Inr (PAM_IGNORE, [])
   \<and> pam_sm_acct_mgmt_mem (\<lambda>n. NUL) sample_codec (sample_handle Map.empty PAM_SUCCESS)
       [''path=data/only_comments''] comments_world
     = Inr (PAM_IGNORE, sample_handle Map.empty PAM_SUCCESS, comments_world)"
proof -
  have a1: "acct_args [''path=data/non-existent''] None None = Some (Some ''data/non-existent'', None)"
    and a2: "acct_args [''path=data/only_comments''] None None
             = Some (Some ''data/only_comments'', None)"
    by code_simp+
  have stack: "\<forall>n. \<not> isspace ((\<lambda>n. NUL) n)"
    by (simp add: isspace_def NUL_def)
  have r: "read_config_mem (\<lambda>n. NUL) 0
             (concat [''# per-user time limits for login sessions\<newline>'', ''\<newline>'',
                      ''#vorlon 5h30s\<newline>'', ''  # lynn 30\<newline>'']) []
           = Inr (PAM_SUCCESS, [])"
    by (rule read_config_mem_skipped [OF stack]) (simp add: comments_lines comments_skipped)
  have c1: "fs (sample_world Map.empty)
              (case Some ''data/non-existent'' of None \<Rightarrow> DEFAULT_CONFIG_PATH | Some p \<Rightarrow> p) = None
            \<or> (\<exists>content. fs (sample_world Map.empty)
                   (case Some ''data/non-existent'' of None \<Rightarrow> DEFAULT_CONFIG_PATH | Some p \<Rightarrow> p)
                   = Some (Regular content)
                 \<and> read_config_mem (\<lambda>n. NUL) 0 content [] = Inr (PAM_SUCCESS, []))"
    by (simp add: sample_world_def)
  have f2: "fs comments_world ''data/only_comments''
            = Some (Regular (concat [''# per-user time limits for login sessions\<newline>'', ''\<newline>'',
                      ''#vorlon 5h30s\<newline>'', ''  # lynn 30\<newline>'']))"
    unfolding comments_world_def sample_world_def by simp
  have c2: "fs comments_world
              (case Some ''data/only_comments'' of None \<Rightarrow> DEFAULT_CONFIG_PATH | Some p \<Rightarrow> p) = None
            \<or> (\<exists>content. fs comments_world
                   (case Some ''data/only_comments'' of None \<Rightarrow> DEFAULT_CONFIG_PATH | Some p \<Rightarrow> p)
                   = Some (Regular content)
                 \<and> read_config_mem (\<lambda>n. NUL) 0 content [] = Inr (PAM_SUCCESS, []))"
    using f2 r by simp
  have n1: "fs (sample_world Map.empty) ''data/non-existent'' = None"
    by (simp add: sample_world_def)
  from no_limits_is_ignore [OF a1 sample_user c1, of sample_codec]
       no_limits_is_ignore [OF a2 sample_user c2, of sample_codec] n1
  show ?thesis by simp
qed

section \<open>Blank lines of the limits file\<close>

text \<open>
  Claim C10. The claim is that a line which is blank once the newline and the comment
  are gone is stripped with every index inside the buffer, and skipped with
  \<open>PAM_SUCCESS\<close>. On the line that holds only a newline the stripping loop of
  \<^verbatim>\<open>parse_config_line\<close> evaluates \<^verbatim>\<open>line[length-1]\<close> with \<open>length = 0\<close>: the index is
  outside the buffer, and the function does not reach its test for an empty line. The
  same happens on every line of white space and on every line that is a comment
  (lemmas \<open>blank_line_out_of_bounds\<close> and \<open>comment_line_out_of_bounds\<close>).
\<close>

theorem parse_config_line_newline_out_of_bounds:
  "parse_config_line [NL] = Inl OutOfBounds"
  by code_simp

end
